theory Spec2Isabelle
  imports Main "HOL-Library.Sublist"
begin

section \<open>Python strings\<close>

text \<open>
  A Python \<^verbatim>\<open>str\<close> is a sequence of Unicode code points, so a string is a list of
  natural numbers here. \<open>lit\<close> turns an Isabelle literal into such a list, for the
  constants of \<^verbatim>\<open>main.py\<close>.
\<close>

type_synonym codepoint = nat
type_synonym str = "codepoint list"

definition lit :: "string \<Rightarrow> str" where
  "lit s = map of_char s"

definition NL :: codepoint where "NL = 10"
definition SP :: codepoint where "SP = 32"
definition UNDERSCORE :: codepoint where "UNDERSCORE = 95"
definition TAB :: codepoint where "TAB = 9"

text \<open>
  \<^verbatim>\<open>str.isspace\<close> on one code point: the table of CPython's
  \<^verbatim>\<open>_PyUnicode_IsWhitespace\<close>, which is what \<^verbatim>\<open>str.strip()\<close> without argument removes.
\<close>

definition isspace :: "codepoint \<Rightarrow> bool" where
  "isspace c \<longleftrightarrow>
     (9 \<le> c \<and> c \<le> 13) \<or> (28 \<le> c \<and> c \<le> 32) \<or> c = 133 \<or> c = 160 \<or> c = 5760 \<or>
     (8192 \<le> c \<and> c \<le> 8202) \<or> c = 8232 \<or> c = 8233 \<or> c = 8239 \<or> c = 8287 \<or>
     c = 12288"

text \<open>\<^verbatim>\<open>s.strip()\<close>: the leading and the trailing whitespace removed.\<close>

definition str_strip :: "str \<Rightarrow> str" where
  "str_strip s = rev (dropWhile isspace (rev (dropWhile isspace s)))"

text \<open>
  \<^verbatim>\<open>s.split(sep)\<close>: the text is scanned from the left; where the separator
  starts, the piece read so far is closed and the scan goes on behind the separator, so
  that occurrences do not overlap. \<open>cur\<close> is the piece being read. Python raises
  \<^verbatim>\<open>ValueError\<close> for an empty separator; \<^verbatim>\<open>main.py\<close> passes the constant
  \<^verbatim>\<open>'\n\n'\<close>.
\<close>

function split_scan :: "str \<Rightarrow> str \<Rightarrow> str \<Rightarrow> str list" where
  "split_scan sep cur [] = [cur]"
| "split_scan sep cur (c # cs) =
     (if sep \<noteq> [] \<and> take (length sep) (c # cs) = sep
      then cur # split_scan sep [] (drop (length sep) (c # cs))
      else split_scan sep (cur @ [c]) cs)"
  by pat_completeness auto
termination
  by (relation "measure (\<lambda>(sep, cur, s). length s)") auto

definition str_split :: "str \<Rightarrow> str \<Rightarrow> str list" where
  "str_split s sep = split_scan sep [] s"

text \<open>
  \<^verbatim>\<open>s.replace(old, new)\<close> for a non-empty \<open>old\<close>: every occurrence, found from the
  left without overlap, is replaced. \<^verbatim>\<open>main.py\<close> calls it with one-character
  constants only.
\<close>

function str_replace :: "str \<Rightarrow> str \<Rightarrow> str \<Rightarrow> str" where
  "str_replace [] old new = []"
| "str_replace (c # cs) old new =
     (if old \<noteq> [] \<and> take (length old) (c # cs) = old
      then new @ str_replace (drop (length old) (c # cs)) old new
      else c # str_replace cs old new)"
  by pat_completeness auto
termination
  by (relation "measure (\<lambda>(s, old, new). length s)") auto

text \<open>\<^verbatim>\<open>str(n)\<close> for an integer: decimal digits, a minus sign when negative.\<close>

function str_nat :: "nat \<Rightarrow> str" where
  "str_nat n = (if n < 10 then [48 + n] else str_nat (n div 10) @ [48 + n mod 10])"
  by pat_completeness auto
termination
  by (relation "measure (\<lambda>n. n)") auto

declare str_nat.simps [simp del]

definition str_int :: "int \<Rightarrow> str" where
  "str_int i = (if i < 0 then 45 # str_nat (nat (- i)) else str_nat (nat i))"

section \<open>The Markdown formatter\<close>

text \<open>
  Line 181: \<^verbatim>\<open>clean_paragraph = paragraph.replace('\n', ' ').strip()\<close>.
\<close>

definition clean_paragraph :: "str \<Rightarrow> str" where
  "clean_paragraph paragraph = str_strip (str_replace paragraph [NL] [SP])"

text \<open>
  Lines 179 to 183, the loop over the paragraphs of one page; \<open>markdown_text\<close> is the
  accumulator the source appends to.
\<close>

fun paragraphs_loop :: "str list \<Rightarrow> str \<Rightarrow> str" where
  "paragraphs_loop [] markdown_text = markdown_text"
| "paragraphs_loop (paragraph # paragraphs) markdown_text =
     (if clean_paragraph paragraph \<noteq> []
      then paragraphs_loop paragraphs (markdown_text @ clean_paragraph paragraph @ [NL, NL])
      else paragraphs_loop paragraphs markdown_text)"

text \<open>
  Lines 170 to 183, the loop \<^verbatim>\<open>for page_num in range(len(pdf_reader.pages))\<close>.
  \<open>pages\<close> holds what \<^verbatim>\<open>extract_text()\<close> returns for each page.
\<close>

function pages_loop :: "str list \<Rightarrow> nat \<Rightarrow> str \<Rightarrow> str" where
  "pages_loop pages page_num markdown_text =
     (if page_num < length pages
      then let text = pages ! page_num;
               markdown_text = markdown_text @ lit ''\<newline>## Page '' @ str_nat (page_num + 1)
                                 @ [NL, NL];
               paragraphs = str_split text [NL, NL]
           in pages_loop pages (page_num + 1) (paragraphs_loop paragraphs markdown_text)
      else markdown_text)"
  by pat_completeness auto
termination
  by (relation "measure (\<lambda>(pages, page_num, markdown_text). length pages - page_num)") auto

declare pages_loop.simps [simp del]

text \<open>Lines 167 to 185: the text built for the pages of an opened document.\<close>

definition markdown_of_pages :: "str list \<Rightarrow> str" where
  "markdown_of_pages pages = pages_loop pages 0 []"

section \<open>Exceptions, the console and the file system\<close>

text \<open>
  The exceptions the run can meet, each with the text \<^verbatim>\<open>str(e)\<close> that the
  handlers print. \<open>OSError\<close> stands for an \<^verbatim>\<open>OSError\<close> of no class named here,
  \<open>OtherException\<close> for any other \<^verbatim>\<open>Exception\<close>, and \<open>Interrupt\<close> for the subclasses of \<^verbatim>\<open>BaseException\<close>
  outside \<^verbatim>\<open>Exception\<close> (\<^verbatim>\<open>KeyboardInterrupt\<close>, \<^verbatim>\<open>SystemExit\<close>), which
  \<^verbatim>\<open>except Exception\<close> does not catch.
\<close>

datatype exn =
    FileNotFoundError str
  | PdfReadError str
  | FileExistsError str
  | IsADirectoryError str
  | NotADirectoryError str
  | OSError str
  | UnboundLocalError str
  | OtherException str
  | Interrupt str

fun isinstance_Exception :: "exn \<Rightarrow> bool" where
  "isinstance_Exception (Interrupt m) = False"
| "isinstance_Exception e = True"

fun str_exn :: "exn \<Rightarrow> str" where
  "str_exn (FileNotFoundError m) = m"
| "str_exn (PdfReadError m) = m"
| "str_exn (FileExistsError m) = m"
| "str_exn (IsADirectoryError m) = m"
| "str_exn (NotADirectoryError m) = m"
| "str_exn (OSError m) = m"
| "str_exn (UnboundLocalError m) = m"
| "str_exn (OtherException m) = m"
| "str_exn (Interrupt m) = m"

text \<open>
  What the program does to the outside is kept in the order it happens: the lines it
  prints (a status line with its severity, or a plain \<^verbatim>\<open>print\<close>) and the calls that
  can change the file system. The time stamp and the colour codes of a status line are
  left out.
\<close>

datatype severity = Success | Info | Warning | Error

datatype event =
    Log severity str
  | Print str
  | Makedirs str bool
  | DownloadPdf str str
  | OpenWrite str

text \<open>
  The file system holds the regular files with their content and the directories, both
  under the path string the program uses for them. Paths are compared as strings: the
  components \<^verbatim>\<open>.\<close> and \<^verbatim>\<open>..\<close> are not resolved and links are not followed, so two
  strings that the operating system resolves to one file are two files here, and a path
  through \<^verbatim>\<open>..\<close> has a directory of its own. A directory is kept with its final slash,
  a regular file without.
\<close>

record world =
  files :: "str \<rightharpoonup> nat list"
  dirs :: "str set"
  trace :: "event list"

definition emit :: "event \<Rightarrow> world \<Rightarrow> world" where
  "emit ev w = w\<lparr>trace := trace w @ [ev]\<rparr>"

text \<open>Lines 8 to 62, the status reporter.\<close>

definition print_message_with_timestamp :: "str \<Rightarrow> severity \<Rightarrow> world \<Rightarrow> world" where
  "print_message_with_timestamp message color w = emit (Log color message) w"

definition success :: "str \<Rightarrow> world \<Rightarrow> world" where
  "success message w = print_message_with_timestamp message Success w"

definition info :: "str \<Rightarrow> world \<Rightarrow> world" where
  "info message w = print_message_with_timestamp message Info w"

definition warning :: "str \<Rightarrow> world \<Rightarrow> world" where
  "warning message w = print_message_with_timestamp message Warning w"

definition error :: "str \<Rightarrow> world \<Rightarrow> world" where
  "error message w = print_message_with_timestamp message Error w"

text \<open>
  \<^verbatim>\<open>repr(s)\<close>, as it stands in the text of an \<^verbatim>\<open>OSError\<close>: the string in quotes,
  with the backslash, the quote and the ASCII control characters escaped. Code points
  above 126 are kept as they are; Python escapes those that are not printable.
\<close>

definition hex_digit :: "nat \<Rightarrow> codepoint" where
  "hex_digit d = (if d < 10 then 48 + d else 87 + d)"

definition repr_char :: "codepoint \<Rightarrow> codepoint \<Rightarrow> str" where
  "repr_char quote c =
     (if c = 92 then [92, 92]
      else if c = quote then [92, quote]
      else if c = 10 then [92, 110]
      else if c = 13 then [92, 114]
      else if c = 9 then [92, 116]
      else if c < 32 \<or> c = 127 then [92, 120, hex_digit (c div 16), hex_digit (c mod 16)]
      else [c])"

definition repr_str :: "str \<Rightarrow> str" where
  "repr_str s =
     (let quote = (if 39 \<in> set s \<and> 34 \<notin> set s then 34 else 39)
      in quote # concat (map (repr_char quote) s) @ [quote])"

text \<open>\<^verbatim>\<open>str(e)\<close> of an \<^verbatim>\<open>OSError\<close> with an error number, a message and a file name.\<close>

definition os_error_text :: "nat \<Rightarrow> string \<Rightarrow> str \<Rightarrow> str" where
  "os_error_text errno message path =
     lit ''[Errno '' @ str_nat errno @ lit ''] '' @ lit message @ lit '': '' @ repr_str path"

text \<open>The directory part of a path: everything up to the last \<^verbatim>\<open>/\<close>, that one included.\<close>

definition dirname :: "str \<Rightarrow> str" where
  "dirname path = rev (dropWhile (\<lambda>c. c \<noteq> 47) (rev path))"

text \<open>The last component of a path, and a path without its final slashes.\<close>

definition basename :: "str \<Rightarrow> str" where
  "basename path = rev (takeWhile (\<lambda>c. c \<noteq> 47) (rev path))"

definition rstrip_slash :: "str \<Rightarrow> str" where
  "rstrip_slash path = rev (dropWhile (\<lambda>c. c = 47) (rev path))"

text \<open>The leading directories of a path: its prefixes that end with \<^verbatim>\<open>/\<close>.\<close>

definition leading_dirs :: "str \<Rightarrow> str list" where
  "leading_dirs path = filter (\<lambda>p. p \<noteq> [] \<and> last p = 47) (prefixes path)"

text \<open>
  A file name is limited to 255 bytes (\<^verbatim>\<open>NAME_MAX\<close> of Linux), counted in UTF-8, the
  encoding of file names. Only the last component of a path is tested.
\<close>

definition utf8_length :: "str \<Rightarrow> nat" where
  "utf8_length s =
     sum_list (map (\<lambda>c. if c < 128 then 1 else if c < 2048 then 2 else if c < 65536 then 3 else 4) s)"

definition name_too_long :: "str \<Rightarrow> bool" where
  "name_too_long path \<longleftrightarrow> 255 < utf8_length (basename (rstrip_slash path))"

text \<open>
  \<^verbatim>\<open>os.makedirs(name, exist_ok=...)\<close>: the directory and its leading directories
  are created. An existing directory is an error only when \<open>exist_ok\<close> is false. A
  regular file in the place of a leading directory, or in the place of the directory
  itself, is an error in both cases, and so is a name that is too long.
\<close>

definition makedirs :: "str \<Rightarrow> bool \<Rightarrow> world \<Rightarrow> exn option \<times> world" where
  "makedirs name exist_ok w =
     (let w1 = emit (Makedirs name exist_ok) w
      in if name \<in> dirs w1
         then (if exist_ok then (None, w1)
               else (Some (FileExistsError (os_error_text 17 ''File exists'' name)), w1))
         else if list_ex (\<lambda>d. rstrip_slash d \<noteq> rstrip_slash name \<and> rstrip_slash d \<in> dom (files w1))
                   (leading_dirs name)
         then (Some (NotADirectoryError (os_error_text 20 ''Not a directory'' name)), w1)
         else if rstrip_slash name \<in> dom (files w1)
         then (Some (FileExistsError (os_error_text 17 ''File exists'' name)), w1)
         else if name_too_long name
         then (Some (OSError (os_error_text 36 ''File name too long'' name)), w1)
         else (None, w1\<lparr>dirs := insert name (set (leading_dirs name) \<union> dirs w1)\<rparr>))"

text \<open>
  Opening a file for writing (\<^verbatim>\<open>open(path, 'w')\<close> or \<^verbatim>\<open>'wb'\<close>): the directory of
  the path has to exist, the path must not name a directory and its last component must
  not be too long. The file is created, or emptied when it exists.
\<close>

definition open_for_writing :: "str \<Rightarrow> world \<Rightarrow> exn + world" where
  "open_for_writing path w =
     (if dirname path \<noteq> [] \<and> rstrip_slash (dirname path) \<in> dom (files w)
      then Inl (NotADirectoryError (os_error_text 20 ''Not a directory'' path))
      else if dirname path \<noteq> [] \<and> dirname path \<notin> dirs w
      then Inl (FileNotFoundError (os_error_text 2 ''No such file or directory'' path))
      else if path \<in> dirs w
      then Inl (IsADirectoryError (os_error_text 21 ''Is a directory'' path))
      else if name_too_long path
      then Inl (OSError (os_error_text 36 ''File name too long'' path))
      else Inr (w\<lparr>files := (files w)(path \<mapsto> [])\<rparr>))"

text \<open>Opening a file for writing bytes and storing \<open>data\<close> in it.\<close>

definition write_file :: "str \<Rightarrow> nat list \<Rightarrow> world \<Rightarrow> exn option \<times> world" where
  "write_file path data w =
     (case open_for_writing path w of
        Inl e \<Rightarrow> (Some e, w)
      | Inr w1 \<Rightarrow> (None, w1\<lparr>files := (files w1)(path \<mapsto> data)\<rparr>))"

text \<open>Opening a file for reading bytes (\<^verbatim>\<open>open(path, 'rb')\<close>) and reading it.\<close>

definition open_for_reading :: "str \<Rightarrow> world \<Rightarrow> exn + nat list" where
  "open_for_reading path w =
     (case files w path of
        Some data \<Rightarrow> Inr data
      | None \<Rightarrow>
          (if path \<in> dirs w
           then Inl (IsADirectoryError (os_error_text 21 ''Is a directory'' path))
           else if dirname path \<noteq> [] \<and> rstrip_slash (dirname path) \<in> dom (files w)
           then Inl (NotADirectoryError (os_error_text 20 ''Not a directory'' path))
           else if name_too_long path
           then Inl (OSError (os_error_text 36 ''File name too long'' path))
           else Inl (FileNotFoundError (os_error_text 2 ''No such file or directory'' path))))"

text \<open>
  \<^verbatim>\<open>os.path.join(a, b)\<close> of \<^verbatim>\<open>posixpath\<close>: an absolute \<open>b\<close> replaces \<open>a\<close>;
  otherwise \<open>b\<close> follows \<open>a\<close>, after a slash when \<open>a\<close> does not end with one.
\<close>

definition os_path_join :: "str \<Rightarrow> str \<Rightarrow> str" where
  "os_path_join a b =
     (if take 1 b = [47] then b
      else if a = [] \<or> last a = 47 then a @ b
      else a @ [47] @ b)"

section \<open>The collaborators\<close>

text \<open>
  The result stream of \<^verbatim>\<open>client.results(search)\<close> is a generator: at each
  step it yields a record, ends, or raises. It is finite, the client yields at most
  \<^verbatim>\<open>max_results\<close> records.
\<close>

datatype 'a lazy_seq = Stop | Yield 'a "'a lazy_seq" | Raise exn

text \<open>
  A search hit: its title, and what fetching its PDF gives, the bytes or the exception
  raised.
\<close>

record arxiv_result =
  title :: str
  fetch :: "exn + nat list"

datatype sort_criterion = Relevance | LastUpdatedDate | SubmittedDate

record client =
  client_page_size :: int
  client_delay_seconds :: int
  client_num_retries :: int

record search =
  search_query :: str
  search_max_results :: int
  search_sort_by :: sort_criterion

text \<open>
  The two libraries and the text encoding of the platform are parameters of the run:
  \<open>client_results\<close> is \<^verbatim>\<open>arxiv.Client.results\<close>; \<open>pdf_reader\<close> is
  \<^verbatim>\<open>pypdf.PdfReader\<close> with \<^verbatim>\<open>extract_text()\<close> on every page: from the bytes of
  a file, the text of each page or the exception raised on the way; \<open>encode\<close> gives the
  bytes that a file opened in text mode stores for a string, or the
  \<^verbatim>\<open>UnicodeEncodeError\<close> that \<^verbatim>\<open>write\<close> raises.
\<close>

record env =
  client_results :: "client \<Rightarrow> search \<Rightarrow> arxiv_result lazy_seq"
  pdf_reader :: "nat list \<Rightarrow> exn + str list"
  encode :: "str \<Rightarrow> exn + nat list"

text \<open>
  \<^verbatim>\<open>each_result.download_pdf(dirpath=..., filename=...)\<close> of the arxiv library: the
  PDF is fetched and stored at \<^verbatim>\<open>os.path.join(dirpath, filename)\<close>. A fetch that
  raises is taken to raise before the file is opened, so that it leaves the file system
  as it was.
\<close>

definition download_pdf :: "arxiv_result \<Rightarrow> str \<Rightarrow> str \<Rightarrow> world \<Rightarrow> exn option \<times> world" where
  "download_pdf r dirpath filename w =
     (let w1 = emit (DownloadPdf dirpath filename) w
      in case fetch r of
           Inl e \<Rightarrow> (Some e, w1)
         | Inr data \<Rightarrow> write_file (os_path_join dirpath filename) data w1)"

section \<open>convert_pdf_to_markdown\<close>

text \<open>
  Lines 146 to 192. A missing file raises \<^verbatim>\<open>FileNotFoundError\<close> at \<^verbatim>\<open>open\<close>; the
  two handlers print a line and raise the exception again, any other exception, of
  \<^verbatim>\<open>open\<close> or of the reader, passes through.
\<close>

definition convert_pdf_to_markdown :: "env \<Rightarrow> str \<Rightarrow> world \<Rightarrow> (exn + str) \<times> world" where
  "convert_pdf_to_markdown ev pdf_path w =
     (let outcome =
            (case open_for_reading pdf_path w of
               Inl e \<Rightarrow> Inl e
             | Inr pdf_file \<Rightarrow>
                 (case pdf_reader ev pdf_file of
                    Inl e \<Rightarrow> Inl e
                  | Inr pages \<Rightarrow> Inr (markdown_of_pages pages)))
      in case outcome of
           Inr markdown_text \<Rightarrow> (Inr markdown_text, w)
         | Inl (FileNotFoundError m) \<Rightarrow>
             (Inl (FileNotFoundError m),
              emit (Print (lit ''Error: PDF file not found at '' @ pdf_path)) w)
         | Inl (PdfReadError m) \<Rightarrow>
             (Inl (PdfReadError m), emit (Print (lit ''Error reading PDF file: '' @ m)) w)
         | Inl e \<Rightarrow> (Inl e, w))"

section \<open>main\<close>

record args =
  query_list :: "str list"
  markdown :: bool
  page_size :: int
  delay_seconds :: int
  num_retries :: int
  max_results :: int
  sort_by :: str
  output_dir :: str

text \<open>
  Lines 270 to 279, the body of the inner \<^verbatim>\<open>try\<close>. The markdown file is opened,
  which creates or empties it, and the text is encoded and written; when the encoding
  fails the file stays empty.
\<close>

definition convert_body :: "args \<Rightarrow> env \<Rightarrow> str \<Rightarrow> str \<Rightarrow> arxiv_result \<Rightarrow> world \<Rightarrow> exn option \<times> world" where
  "convert_body a ev output_pdf_dir output_md_dir each_result w =
     (if markdown a
      then (case convert_pdf_to_markdown ev (output_pdf_dir @ title each_result @ lit ''.pdf'') w of
              (Inl e, w1) \<Rightarrow> (Some e, w1)
            | (Inr markdown_text, w1) \<Rightarrow>
                (case open_for_writing (output_md_dir @ title each_result @ lit ''.md'')
                        (emit (OpenWrite (output_md_dir @ title each_result @ lit ''.md'')) w1) of
                   Inl e \<Rightarrow>
                     (Some e, emit (OpenWrite (output_md_dir @ title each_result @ lit ''.md'')) w1)
                 | Inr w2 \<Rightarrow>
                     (case encode ev markdown_text of
                        Inl e \<Rightarrow> (Some e, w2)
                      | Inr bytes \<Rightarrow>
                          (None,
                           success (lit ''Converted '' @ title each_result @ lit '' to Markdown'')
                             (w2\<lparr>files :=
                                  (files w2)(output_md_dir @ title each_result @ lit ''.md'' \<mapsto> bytes)\<rparr>)))))
      else (None, w))"

text \<open>
  Lines 260 to 288, the body of the loop over the results. An exception that is an
  \<^verbatim>\<open>Exception\<close> is caught by the nearest handler, which logs it; any other leaves the
  loop.
\<close>

definition result_body :: "args \<Rightarrow> env \<Rightarrow> str \<Rightarrow> str \<Rightarrow> nat \<Rightarrow> arxiv_result \<Rightarrow> world \<Rightarrow> exn option \<times> world" where
  "result_body a ev output_pdf_dir output_md_dir index each_result w =
     (let w1 = info (lit ''Downloading '' @ str_nat (index + 1) @ lit ''/''
                       @ str_int (max_results a) @ lit '': '' @ title each_result) w
      in case download_pdf each_result output_pdf_dir (title each_result @ lit ''.pdf'') w1 of
           (Some e, w2) \<Rightarrow>
             (if isinstance_Exception e
              then (None, error (lit ''Error downloading '' @ title each_result @ lit '': ''
                                   @ str_exn e) w2)
              else (Some e, w2))
         | (None, w2) \<Rightarrow>
             (case convert_body a ev output_pdf_dir output_md_dir each_result
                     (success (lit ''Downloaded '' @ title each_result) w2) of
                (Some e, w3) \<Rightarrow>
                  (if isinstance_Exception e
                   then (None, error (lit ''Error converting '' @ title each_result
                                        @ lit '' to Markdown: '' @ str_exn e) w3)
                   else (Some e, w3))
              | (None, w3) \<Rightarrow> (None, w3)))"

text \<open>
  Line 258, \<^verbatim>\<open>for index, each_result in enumerate(client.results(search))\<close>. An
  exception of the stream itself is outside every \<^verbatim>\<open>try\<close>.
\<close>

fun results_loop :: "args \<Rightarrow> env \<Rightarrow> str \<Rightarrow> str \<Rightarrow> nat \<Rightarrow> arxiv_result lazy_seq \<Rightarrow> world \<Rightarrow> exn option \<times> world" where
  "results_loop a ev output_pdf_dir output_md_dir index Stop w = (None, w)"
| "results_loop a ev output_pdf_dir output_md_dir index (Raise e) w = (Some e, w)"
| "results_loop a ev output_pdf_dir output_md_dir index (Yield each_result rest) w =
     (case result_body a ev output_pdf_dir output_md_dir index each_result w of
        (Some e, w1) \<Rightarrow> (Some e, w1)
      | (None, w1) \<Rightarrow> results_loop a ev output_pdf_dir output_md_dir (index + 1) rest w1)"

text \<open>Lines 250 and 251.\<close>

definition output_pdf_dir_of :: "str \<Rightarrow> str" where
  "output_pdf_dir_of each_query = lit ''./pdfs/'' @ str_replace each_query [SP] [UNDERSCORE] @ lit ''/''"

definition output_md_dir_of :: "str \<Rightarrow> str" where
  "output_md_dir_of each_query = lit ''./mds/'' @ str_replace each_query [SP] [UNDERSCORE] @ lit ''/''"

text \<open>
  Lines 238 to 288, the body of the loop over the queries. \<open>sort_by_local\<close> is the
  local variable \<^verbatim>\<open>sort_by\<close>, unbound when none of the three branches of lines 226 to
  234 was taken.
\<close>

definition query_body :: "args \<Rightarrow> env \<Rightarrow> client \<Rightarrow> sort_criterion option \<Rightarrow> str \<Rightarrow> world \<Rightarrow> exn option \<times> world" where
  "query_body a ev cl sort_by_local each_query w =
     (case sort_by_local of
        None \<Rightarrow>
          (Some (UnboundLocalError (lit (''cannot access local variable '' @ [CHR 0x27] @ ''sort_by''
                   @ [CHR 0x27] @ '' where it is not associated with a value''))), w)
      | Some criterion \<Rightarrow>
          (let srch = \<lparr>search_query = each_query, search_max_results = max_results a,
                       search_sort_by = criterion\<rparr>;
               w1 = info (lit ''Searching for '' @ each_query) w
           in case makedirs (output_pdf_dir_of each_query) True w1 of
                (Some e, w2) \<Rightarrow> (Some e, w2)
              | (None, w2) \<Rightarrow>
                  (case makedirs (output_md_dir_of each_query) True w2 of
                     (Some e, w3) \<Rightarrow> (Some e, w3)
                   | (None, w3) \<Rightarrow>
                       results_loop a ev (output_pdf_dir_of each_query)
                         (output_md_dir_of each_query) 0 (client_results ev cl srch) w3)))"

text \<open>Line 237, \<^verbatim>\<open>for each_query in args.query_list\<close>.\<close>

fun queries_loop :: "args \<Rightarrow> env \<Rightarrow> client \<Rightarrow> sort_criterion option \<Rightarrow> str list \<Rightarrow> world \<Rightarrow> exn option \<times> world" where
  "queries_loop a ev cl sort_by_local [] w = (None, w)"
| "queries_loop a ev cl sort_by_local (each_query # rest) w =
     (case query_body a ev cl sort_by_local each_query w of
        (Some e, w1) \<Rightarrow> (Some e, w1)
      | (None, w1) \<Rightarrow> queries_loop a ev cl sort_by_local rest w1)"

text \<open>
  Lines 214 to 288. \<open>a\<close> is what \<^verbatim>\<open>parse_args()\<close> returned. The result is the
  exception that ended the run, if any, and the world the run leaves.
\<close>

definition main :: "args \<Rightarrow> env \<Rightarrow> world \<Rightarrow> exn option \<times> world" where
  "main a ev w =
     (let cl = \<lparr>client_page_size = page_size a, client_delay_seconds = delay_seconds a,
                 client_num_retries = num_retries a\<rparr>;
          sort_by_local =
            (if sort_by a = lit ''relevance'' then Some Relevance
             else if sort_by a = lit ''last_updated_date'' then Some LastUpdatedDate
             else if sort_by a = lit ''submitted_date'' then Some SubmittedDate
             else None)
      in queries_loop a ev cl sort_by_local (query_list a) w)"

section \<open>Notions of the specification\<close>

text \<open>\<^verbatim>\<open>sep.join(xs)\<close>, to say what splitting at a separator keeps.\<close>

fun str_join :: "str \<Rightarrow> str list \<Rightarrow> str" where
  "str_join sep [] = []"
| "str_join sep [x] = x"
| "str_join sep (x # y # ys) = x @ sep @ str_join sep (y # ys)"

text \<open>
  The directory name as the specification words it: every whitespace character of the
  query replaced by an underscore.
\<close>

definition whitespace_to_underscores :: "str \<Rightarrow> str" where
  "whitespace_to_underscores q = map (\<lambda>c. if isspace c then UNDERSCORE else c) q"

text \<open>
  The heading line that line 175 writes for page \<open>n\<close>, without the line breaks around
  it.
\<close>

definition page_heading :: "nat \<Rightarrow> str" where
  "page_heading n = lit ''## Page '' @ str_nat n"

text \<open>
  The heading lines of a markdown text: its lines, in order, that begin with
  \<^verbatim>\<open>## Page \<close> and so render as a level-2 heading of that form.
\<close>

definition heading_lines :: "str \<Rightarrow> str list" where
  "heading_lines md = filter (prefix (lit ''## Page '')) (str_split md [NL])"

text \<open>The number that a string of decimal digits denotes.\<close>

definition nat_of_digits :: "str \<Rightarrow> nat" where
  "nat_of_digits s = foldl (\<lambda>a d. 10 * a + (d - 48)) 0 s"

text \<open>
  The blocks of a page and the section of the page, as the specification describes
  them: the cleaned pieces that are not empty, and the heading followed by every block
  with its blank line.
\<close>

definition page_blocks :: "str \<Rightarrow> str list" where
  "page_blocks text = filter (\<lambda>b. b \<noteq> []) (map clean_paragraph (str_split text [NL, NL]))"

definition page_section :: "nat \<Rightarrow> str \<Rightarrow> str" where
  "page_section n text =
     [NL] @ page_heading n @ [NL, NL] @ concat (map (\<lambda>b. b @ [NL, NL]) (page_blocks text))"

text \<open>The exception with which a result stream ends, if it ends with one.\<close>

fun stream_error :: "'a lazy_seq \<Rightarrow> exn option" where
  "stream_error Stop = None"
| "stream_error (Raise e) = Some e"
| "stream_error (Yield x rest) = stream_error rest"

text \<open>
  The client and the sort criterion that lines 220 to 234 of \<^verbatim>\<open>main\<close> compute from
  the arguments, named to speak of a run.
\<close>

definition client_of :: "args \<Rightarrow> client" where
  "client_of a = \<lparr>client_page_size = page_size a, client_delay_seconds = delay_seconds a,
     client_num_retries = num_retries a\<rparr>"

definition sort_criterion_of :: "str \<Rightarrow> sort_criterion option" where
  "sort_criterion_of s =
     (if s = lit ''relevance'' then Some Relevance
      else if s = lit ''last_updated_date'' then Some LastUpdatedDate
      else if s = lit ''submitted_date'' then Some SubmittedDate
      else None)"

text \<open>The entries that a run has added to the trace of the world it started in.\<close>

definition new_events :: "world \<Rightarrow> world \<Rightarrow> event list" where
  "new_events w w' = drop (length (trace w)) (trace w')"

text \<open>
  A path is written by a list of events when one of them is a download whose directory
  and file name join to the path, or the opening of the path for writing.
\<close>

definition written_by :: "event list \<Rightarrow> str \<Rightarrow> bool" where
  "written_by evs p \<longleftrightarrow>
     list_ex (\<lambda>e. case e of DownloadPdf d f \<Rightarrow> p = os_path_join d f | OpenWrite q \<Rightarrow> p = q
                   | _ \<Rightarrow> False) evs"

text \<open>
  The calls that the work on one query may make, given its two directories: the two
  directories are made with \<^verbatim>\<open>exist_ok=True\<close>, a download goes to the PDF directory
  under a file name that ends with \<^verbatim>\<open>.pdf\<close>, and a file is opened for writing only
  when the conversion is switched on, at a path that begins with the markdown directory
  and ends with \<^verbatim>\<open>.md\<close>. Printing is always allowed.
\<close>

definition requested_in :: "bool \<Rightarrow> str \<Rightarrow> str \<Rightarrow> event \<Rightarrow> bool" where
  "requested_in convert pdf_dir md_dir e =
     (case e of
        Log s m \<Rightarrow> True
      | Print m \<Rightarrow> True
      | Makedirs d ok \<Rightarrow> ok \<and> (d = pdf_dir \<or> d = md_dir)
      | DownloadPdf d f \<Rightarrow> d = pdf_dir \<and> suffix (lit ''.pdf'') f
      | OpenWrite p \<Rightarrow> convert \<and> prefix md_dir p \<and> suffix (lit ''.md'') p)"

text \<open>
  One world extends another by events that all satisfy \<open>ok\<close>: no directory is lost, the
  trace grows by such events, and every file that differs is written by them.
\<close>

definition extends :: "(event \<Rightarrow> bool) \<Rightarrow> world \<Rightarrow> world \<Rightarrow> bool" where
  "extends ok w w' \<longleftrightarrow>
     dirs w \<subseteq> dirs w' \<and>
     (\<exists>evs. trace w' = trace w @ evs \<and> (\<forall>e\<in>set evs. ok e) \<and>
        (\<forall>p. files w' p \<noteq> files w p \<longrightarrow> written_by evs p))"

section \<open>Example inputs\<close>

text \<open>
  Three search hits (the second cannot be fetched), the arguments of a run, the
  collaborators (the stream of the query \<^verbatim>\<open>q\<close> raises after its first hit, any other
  query has the three hits; only the file with the byte 1 can be read as a PDF; a text
  is stored as its code points) and a world in which the directories of the query
  \<^verbatim>\<open>q\<close> exist.
\<close>

definition paper_a :: arxiv_result where
  "paper_a = \<lparr>title = lit ''A'', fetch = Inr [1]\<rparr>"

definition paper_b :: arxiv_result where
  "paper_b = \<lparr>title = lit ''B'', fetch = Inl (OtherException (lit ''404''))\<rparr>"

definition paper_c :: arxiv_result where
  "paper_c = \<lparr>title = lit ''C'', fetch = Inr [3]\<rparr>"

definition example_args :: args where
  "example_args = \<lparr>query_list = [lit ''q'', lit ''r''], markdown = False, page_size = 100,
     delay_seconds = 10, num_retries = 5, max_results = 10, sort_by = lit ''relevance'',
     output_dir = lit ''documents''\<rparr>"

definition example_env :: env where
  "example_env =
     \<lparr>client_results = (\<lambda>cl srch.
         if search_query srch = lit ''q'' then Yield paper_a (Raise (OtherException (lit ''503'')))
         else Yield paper_a (Yield paper_b (Yield paper_c Stop))),
     pdf_reader = (\<lambda>pdf. if pdf = [1] then Inr [lit ''Hi''] else Inl (PdfReadError (lit ''bad''))),
     encode = Inr\<rparr>"

definition example_world :: world where
  "example_world = \<lparr>files = Map.empty, dirs = {lit ''./pdfs/q/'', lit ''./mds/q/''}, trace = []\<rparr>"

text \<open>A world without any file or directory, and the client of the example run.\<close>

definition empty_world :: world where
  "empty_world = \<lparr>files = Map.empty, dirs = {}, trace = []\<rparr>"

definition example_client :: client where
  "example_client = \<lparr>client_page_size = 100, client_delay_seconds = 10, client_num_retries = 5\<rparr>"




section \<open>Strings\<close>

lemma str_replace_single:
  "str_replace s [a] [b] = map (\<lambda>c. if c = a then b else c) s"
  by (induction s) auto

lemma str_strip_decomp:
  "\<exists>pre post. s = pre @ str_strip s @ post \<and> (\<forall>c\<in>set pre. isspace c) \<and> (\<forall>c\<in>set post. isspace c)"
proof -
  define t where "t = dropWhile isspace s"
  have s: "s = takeWhile isspace s @ t"
    by (simp add: t_def)
  have "rev (takeWhile isspace (rev t) @ dropWhile isspace (rev t)) = t"
    by (simp only: takeWhile_dropWhile_id rev_rev_ident)
  then have t: "t = str_strip s @ rev (takeWhile isspace (rev t))"
    by (simp only: rev_append str_strip_def t_def)
  have "s = takeWhile isspace s @ str_strip s @ rev (takeWhile isspace (rev t))"
    using s t by simp
  moreover have "\<forall>c\<in>set (takeWhile isspace s). isspace c"
    by (auto dest: set_takeWhileD)
  moreover have "\<forall>c\<in>set (rev (takeWhile isspace (rev t))). isspace c"
    by (auto dest: set_takeWhileD)
  ultimately show ?thesis by blast
qed

lemma str_strip_ends:
  assumes "str_strip s \<noteq> []"
  shows "\<not> isspace (hd (str_strip s)) \<and> \<not> isspace (last (str_strip s))"
proof -
  define t where "t = dropWhile isspace s"
  define u where "u = dropWhile isspace (rev t)"
  have strip: "str_strip s = rev u"
    by (simp add: str_strip_def t_def u_def)
  with assms have u: "u \<noteq> []" by simp
  then have "\<not> isspace (hd u)"
    unfolding u_def by (rule hd_dropWhile)
  then have last: "\<not> isspace (last (str_strip s))"
    by (simp add: strip last_rev)
  from u have t: "t \<noteq> []" by (auto simp: u_def)
  then have hdt: "\<not> isspace (hd t)"
    unfolding t_def by (rule hd_dropWhile)
  have "hd t \<in> set (rev t)" using t by simp
  then have "last u = last (rev t)"
    unfolding u_def using hdt by (rule dropWhile_last)
  then have "hd (str_strip s) = hd t"
    by (simp add: strip hd_rev last_rev)
  with hdt last show ?thesis by simp
qed

lemma str_strip_blank:
  "(\<forall>c\<in>set s. isspace c) \<Longrightarrow> str_strip s = []"
  by (auto simp: str_strip_def dest: set_dropWhileD)

lemma split_scan_join:
  "sep \<noteq> [] \<Longrightarrow> concat (map (\<lambda>p. sep @ p) (split_scan sep cur s)) = sep @ cur @ s"
proof (induction sep cur s rule: split_scan.induct)
  case (1 sep cur)
  then show ?case by simp
next
  case (2 sep cur c cs)
  show ?case
  proof (cases "take (length sep) (c # cs) = sep")
    case True
    have "sep @ drop (length sep) (c # cs) = c # cs"
      using append_take_drop_id [of "length sep" "c # cs"] True by simp
    with 2 True show ?thesis by (simp del: take_Suc_Cons drop_Suc_Cons)
  next
    case False
    with 2 show ?thesis by simp
  qed
qed

lemma split_scan_not_Nil: "split_scan sep cur s \<noteq> []"
  by (induction sep cur s rule: split_scan.induct) auto

lemma sep_join: "xs \<noteq> [] \<Longrightarrow> sep @ str_join sep xs = concat (map (\<lambda>p. sep @ p) xs)"
  by (induction sep xs rule: str_join.induct) auto

lemma str_join_split: "sep \<noteq> [] \<Longrightarrow> str_join sep (str_split s sep) = s"
  using sep_join [OF split_scan_not_Nil, of sep sep "[]" s] split_scan_join [of sep "[]" s]
  by (simp add: str_split_def)

lemma split_scan_none:
  "(\<forall>i<length s. take (length sep) (drop i s) \<noteq> sep) \<Longrightarrow> split_scan sep cur s = [cur @ s]"
proof (induction s arbitrary: cur)
  case Nil
  then show ?case by simp
next
  case (Cons c cs)
  from Cons.prems have here: "take (length sep) (c # cs) \<noteq> sep"
    by (metis drop0 length_greater_0_conv list.distinct(1))
  have "\<forall>i<length cs. take (length sep) (drop i cs) \<noteq> sep"
  proof (intro allI impI)
    fix i assume "i < length cs"
    then have "Suc i < length (c # cs)" by simp
    with Cons.prems have "take (length sep) (drop (Suc i) (c # cs)) \<noteq> sep" by blast
    then show "take (length sep) (drop i cs) \<noteq> sep" by simp
  qed
  from Cons.IH [OF this] here show ?case by simp
qed

lemma split_scan_first:
  assumes "sep \<noteq> []"
    and "\<forall>i<length a. take (length sep) (drop i (a @ sep @ b)) \<noteq> sep"
  shows "split_scan sep cur (a @ sep @ b) = (cur @ a) # split_scan sep [] b"
  using assms(2)
proof (induction a arbitrary: cur)
  case Nil
  from assms(1) obtain y ys where sep: "sep = y # ys" by (cases sep) auto
  have "split_scan sep cur (y # ys @ b) = cur # split_scan sep [] (drop (length sep) (y # ys @ b))"
    by (subst split_scan.simps) (simp add: sep)
  then show ?case by (simp add: sep)
next
  case (Cons c cs)
  from Cons.prems have here: "take (length sep) (c # cs @ sep @ b) \<noteq> sep"
    by (metis append_Cons drop0 length_greater_0_conv list.distinct(1))
  have "\<forall>i<length cs. take (length sep) (drop i (cs @ sep @ b)) \<noteq> sep"
  proof (intro allI impI)
    fix i assume "i < length cs"
    then have "Suc i < length (c # cs)" by simp
    with Cons.prems have "take (length sep) (drop (Suc i) ((c # cs) @ sep @ b)) \<noteq> sep" by blast
    then show "take (length sep) (drop i (cs @ sep @ b)) \<noteq> sep" by simp
  qed
  from Cons.IH [OF this] here show ?case by simp
qed

lemma isspace_NL_SP: "isspace NL" "isspace SP" "NL \<noteq> SP"
  by (simp_all add: isspace_def NL_def SP_def)

section \<open>Paragraphs of a page\<close>

lemma paragraphs_loop_eq:
  "paragraphs_loop ps md =
     md @ concat (map (\<lambda>b. b @ [NL, NL]) (filter (\<lambda>b. b \<noteq> []) (map clean_paragraph ps)))"
  by (induction ps arbitrary: md) auto

lemma clean_paragraph_blank:
  "(\<forall>c\<in>set p. isspace c) \<Longrightarrow> clean_paragraph p = []"
  unfolding clean_paragraph_def str_replace_single
  by (rule str_strip_blank) (auto simp: isspace_NL_SP)

lemma NL_notin_clean_paragraph: "NL \<notin> set (clean_paragraph p)"
proof -
  obtain pre post where "str_replace p [NL] [SP] = pre @ clean_paragraph p @ post"
    unfolding clean_paragraph_def using str_strip_decomp by blast
  then have "set (clean_paragraph p) \<subseteq> set (str_replace p [NL] [SP])"
    by (metis Un_upper1 Un_upper2 set_append subset_trans)
  moreover have "NL \<notin> set (str_replace p [NL] [SP])"
    unfolding str_replace_single using isspace_NL_SP(3) by auto
  ultimately show ?thesis by blast
qed

lemma pages_loop_eq:
  "pages_loop pages k md =
     md @ concat (map (\<lambda>i. page_section (i + 1) (pages ! i)) [k..<length pages])"
proof (induction pages k md rule: pages_loop.induct)
  case (1 pages page_num markdown_text)
  show ?case
  proof (cases "page_num < length pages")
    case True
    then have upt: "[page_num..<length pages] = page_num # [page_num + 1..<length pages]"
      by (simp add: upt_conv_Cons)
    have head: "lit ''\<newline>## Page '' = NL # lit ''## Page ''"
      by (simp add: lit_def NL_def)
    show ?thesis
      using True "1.IH" [OF True refl refl refl]
      by (subst pages_loop.simps)
        (simp add: Let_def upt paragraphs_loop_eq page_section_def page_heading_def
          page_blocks_def head)
  next
    case False
    then show ?thesis by (subst pages_loop.simps) simp
  qed
qed

lemma markdown_of_pages_eq:
  "markdown_of_pages pages =
     concat (map (\<lambda>n. lit ''\<newline>## Page '' @ str_nat (n + 1) @ [NL, NL]
                    @ concat (map (\<lambda>b. b @ [NL, NL])
                        (filter (\<lambda>b. b \<noteq> []) (map clean_paragraph (str_split (pages ! n) [NL, NL])))))
               [0..<length pages])"
proof -
  have head: "lit ''\<newline>## Page '' = NL # lit ''## Page ''"
    by (simp add: lit_def NL_def)
  show ?thesis
    by (simp add: markdown_of_pages_def pages_loop_eq page_section_def page_heading_def
        page_blocks_def head)
qed

lemma convert_pdf_to_markdown_pages:
  "files w path = Some pdf \<Longrightarrow> pdf_reader ev pdf = Inr pages \<Longrightarrow>
     convert_pdf_to_markdown ev path w = (Inr (markdown_of_pages pages), w)"
  by (simp add: convert_pdf_to_markdown_def open_for_reading_def)

text \<open>
  C1. The markdown text of a document is, page after page, the heading of the page
  followed by the blocks of the page: the text of the page is split at the separator
  \<^verbatim>\<open>'\n\n'\<close>, every piece is cleaned, and every cleaned piece that is not empty is
  appended with a blank line behind it; this is what \<^verbatim>\<open>convert_pdf_to_markdown\<close>
  returns for a file that the reader can read. The split is the one at the leftmost
  separators: a text without separator is one piece, and a text that has its first
  separator behind \<open>s\<close> has the piece \<open>s\<close> followed by the pieces of what comes behind
  that separator; the pieces joined with the separator give the text back. The cleaned
  piece is the piece with every line break replaced by one space, without some leading
  and trailing whitespace, and it neither starts nor ends with whitespace. A piece of
  whitespace only is cleaned to the empty string and so adds nothing. The text
  \<^verbatim>\<open>"Hello\nworld\n\nSecond  paragraph"\<close> gives the two blocks \<^verbatim>\<open>"Hello world"\<close> and
  \<^verbatim>\<open>"Second  paragraph"\<close>.
\<close>

theorem page_paragraphs:
  "markdown_of_pages pages =
     concat (map (\<lambda>n. lit ''\<newline>## Page '' @ str_nat (n + 1) @ [NL, NL]
                    @ concat (map (\<lambda>b. b @ [NL, NL])
                        (filter (\<lambda>b. b \<noteq> []) (map clean_paragraph (str_split (pages ! n) [NL, NL])))))
               [0..<length pages])
   \<and> (files w path = Some pdf \<and> pdf_reader ev pdf = Inr pages \<longrightarrow>
         convert_pdf_to_markdown ev path w = (Inr (markdown_of_pages pages), w))
   \<and> ((\<forall>i<length s. take 2 (drop i s) \<noteq> [NL, NL]) \<longrightarrow> str_split s [NL, NL] = [s])
   \<and> ((\<forall>i<length s. take 2 (drop i (s @ [NL, NL] @ rest)) \<noteq> [NL, NL]) \<longrightarrow>
         str_split (s @ [NL, NL] @ rest) [NL, NL] = s # str_split rest [NL, NL])
   \<and> str_join [NL, NL] (str_split s [NL, NL]) = s
   \<and> (\<exists>pre post. map (\<lambda>c. if c = NL then SP else c) piece = pre @ clean_paragraph piece @ post
         \<and> (\<forall>c\<in>set pre. isspace c) \<and> (\<forall>c\<in>set post. isspace c))
   \<and> (clean_paragraph piece \<noteq> [] \<longrightarrow>
         \<not> isspace (hd (clean_paragraph piece)) \<and> \<not> isspace (last (clean_paragraph piece)))
   \<and> ((\<forall>c\<in>set piece. isspace c) \<longrightarrow> clean_paragraph piece = [])
   \<and> markdown_of_pages [lit ''Hello\<newline>world\<newline>\<newline>Second  piece''] =
       lit ''\<newline>## Page 1\<newline>\<newline>Hello world\<newline>\<newline>Second  piece\<newline>\<newline>''"
proof (intro conjI)
  show "markdown_of_pages pages =
     concat (map (\<lambda>n. lit ''\<newline>## Page '' @ str_nat (n + 1) @ [NL, NL]
                    @ concat (map (\<lambda>b. b @ [NL, NL])
                        (filter (\<lambda>b. b \<noteq> []) (map clean_paragraph (str_split (pages ! n) [NL, NL])))))
               [0..<length pages])"
    by (rule markdown_of_pages_eq)
  show "files w path = Some pdf \<and> pdf_reader ev pdf = Inr pages \<longrightarrow>
         convert_pdf_to_markdown ev path w = (Inr (markdown_of_pages pages), w)"
    by (simp add: convert_pdf_to_markdown_pages)
  show "(\<forall>i<length s. take 2 (drop i s) \<noteq> [NL, NL]) \<longrightarrow> str_split s [NL, NL] = [s]"
    using split_scan_none [of s "[NL, NL]" "[]"] by (simp add: str_split_def numeral_2_eq_2)
  show "(\<forall>i<length s. take 2 (drop i (s @ [NL, NL] @ rest)) \<noteq> [NL, NL]) \<longrightarrow>
         str_split (s @ [NL, NL] @ rest) [NL, NL] = s # str_split rest [NL, NL]"
    using split_scan_first [of "[NL, NL]" s rest "[]"] by (simp add: str_split_def numeral_2_eq_2)
  show "str_join [NL, NL] (str_split s [NL, NL]) = s"
    by (rule str_join_split) simp
  show "\<exists>pre post. map (\<lambda>c. if c = NL then SP else c) piece = pre @ clean_paragraph piece @ post
         \<and> (\<forall>c\<in>set pre. isspace c) \<and> (\<forall>c\<in>set post. isspace c)"
    using str_strip_decomp [of "str_replace piece [NL] [SP]"]
    by (simp only: clean_paragraph_def str_replace_single)
  show "clean_paragraph piece \<noteq> [] \<longrightarrow>
         \<not> isspace (hd (clean_paragraph piece)) \<and> \<not> isspace (last (clean_paragraph piece))"
    unfolding clean_paragraph_def using str_strip_ends by blast
  show "(\<forall>c\<in>set piece. isspace c) \<longrightarrow> clean_paragraph piece = []"
    by (simp add: clean_paragraph_blank)
  show "markdown_of_pages [lit ''Hello\<newline>world\<newline>\<newline>Second  piece''] =
       lit ''\<newline>## Page 1\<newline>\<newline>Hello world\<newline>\<newline>Second  piece\<newline>\<newline>''"
    by (simp add: markdown_of_pages_def pages_loop.simps str_nat.simps lit_def NL_def SP_def
        str_split_def clean_paragraph_def str_strip_def isspace_def)
qed

theorem page_paragraphs_witness:
  "convert_pdf_to_markdown example_env (lit ''a.pdf'') (example_world\<lparr>files := [lit ''a.pdf'' \<mapsto> [1]]\<rparr>)
     = (Inr (lit ''\<newline>## Page 1\<newline>\<newline>Hi\<newline>\<newline>''), example_world\<lparr>files := [lit ''a.pdf'' \<mapsto> [1]]\<rparr>)
   \<and> str_split (lit ''Hi'') [NL, NL] = [lit ''Hi'']
   \<and> str_split (lit ''x\<newline>\<newline>\<newline>y'') [NL, NL] = [lit ''x'', lit ''\<newline>y'']
   \<and> clean_paragraph [SP, NL, TAB] = []
   \<and> clean_paragraph (lit ''a\<newline>b '') = lit ''a b''
   \<and> \<not> isspace (last (clean_paragraph (lit ''a\<newline>b '')))
   \<and> markdown_of_pages [lit ''x\<newline>\<newline>\<newline>y'', [SP, NL, TAB]] =
       lit ''\<newline>## Page 1\<newline>\<newline>x\<newline>\<newline>y\<newline>\<newline>\<newline>## Page 2\<newline>\<newline>''"
proof -
  let ?w = "example_world\<lparr>files := [lit ''a.pdf'' \<mapsto> [1]]\<rparr>"
  note inst = page_paragraphs [where pages = "[lit ''Hi'']" and w = ?w and path = "lit ''a.pdf''"
      and pdf = "[1]" and ev = example_env]
  have stored: "files ?w (lit ''a.pdf'') = Some [1]" by simp
  have rd: "pdf_reader example_env [1] = Inr [lit ''Hi'']" by (simp add: example_env_def)
  have none_hi: "\<forall>i<length (lit ''Hi''). take 2 (drop i (lit ''Hi'')) \<noteq> [NL, NL]"
    by (simp add: lit_def NL_def less_Suc_eq)
  have none_y: "\<forall>i<length (lit ''\<newline>y''). take 2 (drop i (lit ''\<newline>y'')) \<noteq> [NL, NL]"
    by (simp add: lit_def NL_def less_Suc_eq)
  have first_x: "\<forall>i<length (lit ''x''). take 2 (drop i (lit ''x'' @ [NL, NL] @ lit ''\<newline>y'')) \<noteq> [NL, NL]"
    by (simp add: lit_def NL_def)
  have blank: "\<forall>c\<in>set [SP, NL, TAB]. isspace c"
    by (simp add: isspace_def SP_def NL_def TAB_def)
  have clean: "clean_paragraph (lit ''a\<newline>b '') = lit ''a b''"
    by (simp add: lit_def NL_def SP_def clean_paragraph_def str_strip_def isspace_def)
  have nonempty: "clean_paragraph (lit ''a\<newline>b '') \<noteq> []"
    unfolding clean by (simp add: lit_def)
  have split_hi: "str_split (lit ''Hi'') [NL, NL] = [lit ''Hi'']"
    using page_paragraphs [where s = "lit ''Hi''"] none_hi by blast
  have split_y: "str_split (lit ''\<newline>y'') [NL, NL] = [lit ''\<newline>y'']"
    using page_paragraphs [where s = "lit ''\<newline>y''"] none_y by blast
  have "str_split (lit ''x'' @ [NL, NL] @ lit ''\<newline>y'') [NL, NL] = lit ''x'' # str_split (lit ''\<newline>y'') [NL, NL]"
    using page_paragraphs [where s = "lit ''x''" and rest = "lit ''\<newline>y''"] first_x by blast
  moreover have "lit ''x'' @ [NL, NL] @ lit ''\<newline>y'' = lit ''x\<newline>\<newline>\<newline>y''"
    by (simp add: lit_def NL_def)
  ultimately have split_x: "str_split (lit ''x\<newline>\<newline>\<newline>y'') [NL, NL] = [lit ''x'', lit ''\<newline>y'']"
    by (simp add: split_y)
  have empty: "clean_paragraph [SP, NL, TAB] = []"
    using page_paragraphs [where piece = "[SP, NL, TAB]"] blank by blast
  have ends: "\<not> isspace (last (clean_paragraph (lit ''a\<newline>b '')))"
    using page_paragraphs [where piece = "lit ''a\<newline>b ''"] nonempty by blast
  have md_hi: "markdown_of_pages [lit ''Hi''] = lit ''\<newline>## Page 1\<newline>\<newline>Hi\<newline>\<newline>''"
    by (simp add: markdown_of_pages_def pages_loop.simps str_nat.simps lit_def NL_def SP_def
        str_split_def clean_paragraph_def str_strip_def isspace_def)
  have conv: "convert_pdf_to_markdown example_env (lit ''a.pdf'') ?w = (Inr (markdown_of_pages [lit ''Hi'']), ?w)"
    using inst stored rd by blast
  have two: "markdown_of_pages [lit ''x\<newline>\<newline>\<newline>y'', [SP, NL, TAB]] =
       lit ''\<newline>## Page 1\<newline>\<newline>x\<newline>\<newline>y\<newline>\<newline>\<newline>## Page 2\<newline>\<newline>''"
    by (simp add: markdown_of_pages_def pages_loop.simps str_nat.simps lit_def NL_def SP_def TAB_def
        str_split_def clean_paragraph_def str_strip_def isspace_def)
  from conv split_hi split_x empty clean ends two show ?thesis
    by (simp only: md_hi) simp
qed

section \<open>Output directories\<close>

text \<open>
  C6, as amended. The two directories of a query are \<^verbatim>\<open>./pdfs/\<close> and \<^verbatim>\<open>./mds/\<close>
  followed by the query with every space (U+0020) replaced by an underscore, and a
  slash; every other character of the query, other whitespace included, is kept.
\<close>

theorem output_dirs_replace_spaces:
  "output_pdf_dir_of each_query =
     lit ''./pdfs/'' @ map (\<lambda>c. if c = SP then UNDERSCORE else c) each_query @ lit ''/''
   \<and> output_md_dir_of each_query =
     lit ''./mds/'' @ map (\<lambda>c. if c = SP then UNDERSCORE else c) each_query @ lit ''/''"
  by (simp add: output_pdf_dir_of_def output_md_dir_of_def str_replace_single)

theorem output_dirs_replace_spaces_witness:
  "output_pdf_dir_of (lit ''deep learning'') = lit ''./pdfs/deep_learning/''
   \<and> output_md_dir_of (lit ''deep learning'') = lit ''./mds/deep_learning/''"
  using output_dirs_replace_spaces [of "lit ''deep learning''"]
  by (simp add: lit_def SP_def UNDERSCORE_def)

text \<open>
  C6 as stated fails for a query with a tab between two letters: the tab is whitespace
  and stays in the directory name.
\<close>

theorem output_dir_tab_counterexample:
  "isspace TAB
   \<and> output_pdf_dir_of [97, TAB, 98] = lit ''./pdfs/'' @ [97, TAB, 98] @ lit ''/''
   \<and> output_pdf_dir_of [97, TAB, 98] \<noteq> lit ''./pdfs/'' @ whitespace_to_underscores [97, TAB, 98] @ lit ''/''
   \<and> output_md_dir_of [97, TAB, 98] \<noteq> lit ''./mds/'' @ whitespace_to_underscores [97, TAB, 98] @ lit ''/''"
  by (simp add: output_pdf_dir_of_def output_md_dir_of_def whitespace_to_underscores_def
      isspace_def lit_def TAB_def SP_def UNDERSCORE_def)

section \<open>Page headings\<close>

lemma str_nat_digits: "c \<in> set (str_nat n) \<Longrightarrow> 48 \<le> c \<and> c \<le> 57"
proof (induction n rule: str_nat.induct)
  case (1 n)
  show ?case
  proof (cases "n < 10")
    case True
    with "1.prems" show ?thesis by (simp add: str_nat.simps [of n])
  next
    case False
    with "1.prems" have "c \<in> set (str_nat (n div 10)) \<or> c = 48 + n mod 10"
      by (auto simp: str_nat.simps [of n])
    then show ?thesis
    proof
      assume "c \<in> set (str_nat (n div 10))"
      with False "1.IH" show ?thesis by simp
    next
      assume "c = 48 + n mod 10"
      moreover have "n mod 10 < 10" by simp
      ultimately show ?thesis by linarith
    qed
  qed
qed

lemma nat_of_digits_str_nat: "nat_of_digits (str_nat n) = n"
proof (induction n rule: str_nat.induct)
  case (1 n)
  show ?case
  proof (cases "n < 10")
    case True
    then show ?thesis by (simp add: str_nat.simps [of n] nat_of_digits_def)
  next
    case False
    with 1 have "nat_of_digits (str_nat (n div 10)) = n div 10" by simp
    with False show ?thesis
      by (simp add: str_nat.simps [of n] nat_of_digits_def)
  qed
qed

lemma inj_str_nat: "inj str_nat"
  by (rule inj_on_inverseI [where g = nat_of_digits]) (rule nat_of_digits_str_nat)

lemma split_scan_line:
  "NL \<notin> set l \<Longrightarrow> split_scan [NL] cur (l @ NL # rest) = (cur @ l) # split_scan [NL] [] rest"
  by (induction l arbitrary: cur) auto

lemma split_scan_last_line:
  "NL \<notin> set l \<Longrightarrow> split_scan [NL] cur l = [cur @ l]"
  by (induction l arbitrary: cur) auto

lemma heading_lines_line:
  "NL \<notin> set l \<Longrightarrow>
     heading_lines (l @ NL # rest) = (if prefix (lit ''## Page '') l then [l] else []) @ heading_lines rest"
  by (simp add: heading_lines_def str_split_def split_scan_line)

lemma heading_not_Nil: "lit ''## Page '' \<noteq> []"
  by (simp add: lit_def)

lemma heading_lines_blocks:
  assumes "\<forall>b\<in>set bs. NL \<notin> set b \<and> \<not> prefix (lit ''## Page '') b"
  shows "heading_lines (concat (map (\<lambda>b. b @ [NL, NL]) bs) @ rest) = heading_lines rest"
  using assms
proof (induction bs)
  case Nil
  then show ?case by simp
next
  case (Cons b bs)
  let ?tail = "concat (map (\<lambda>b. b @ [NL, NL]) bs) @ rest"
  have "heading_lines (b @ NL # [] @ NL # ?tail) = heading_lines ?tail"
    using Cons.prems heading_lines_line [of b "[] @ NL # ?tail"] heading_lines_line [of "[]" ?tail]
    by (simp add: heading_not_Nil)
  with Cons show ?case by simp
qed

lemma NL_notin_page_heading: "NL \<notin> set (page_heading n)"
proof
  assume "NL \<in> set (page_heading n)"
  then have "NL \<in> set (lit ''## Page '') \<or> NL \<in> set (str_nat n)"
    by (simp add: page_heading_def)
  then show False
  proof
    assume "NL \<in> set (lit ''## Page '')"
    then show False by (simp add: lit_def NL_def)
  next
    assume "NL \<in> set (str_nat n)"
    from str_nat_digits [OF this] show False by (simp add: NL_def)
  qed
qed

lemma heading_lines_Nil: "heading_lines [] = []"
  by (simp add: heading_lines_def str_split_def heading_not_Nil)

lemma heading_lines_section:
  assumes "\<forall>b\<in>set (page_blocks text). \<not> prefix (lit ''## Page '') b"
  shows "heading_lines (page_section n text @ rest) = page_heading n # heading_lines rest"
proof -
  let ?blocks = "concat (map (\<lambda>b. b @ [NL, NL]) (page_blocks text)) @ rest"
  have blocks: "heading_lines ?blocks = heading_lines rest"
  proof (rule heading_lines_blocks)
    show "\<forall>b\<in>set (page_blocks text). NL \<notin> set b \<and> \<not> prefix (lit ''## Page '') b"
      using assms by (auto simp: page_blocks_def NL_notin_clean_paragraph)
  qed
  have "page_section n text @ rest = [] @ NL # page_heading n @ NL # [] @ NL # ?blocks"
    by (simp add: page_section_def)
  then have "heading_lines (page_section n text @ rest) =
      heading_lines (page_heading n @ NL # [] @ NL # ?blocks)"
    using heading_lines_line [of "[]" "page_heading n @ NL # [] @ NL # ?blocks"]
    by (simp add: heading_not_Nil)
  also have "\<dots> = page_heading n # heading_lines ([] @ NL # ?blocks)"
    using heading_lines_line [OF NL_notin_page_heading, of n "[] @ NL # ?blocks"]
    by (simp add: page_heading_def)
  also have "heading_lines ([] @ NL # ?blocks) = heading_lines ?blocks"
    using heading_lines_line [of "[]" ?blocks] by (simp add: heading_not_Nil)
  finally show ?thesis using blocks by simp
qed

lemma heading_lines_sections:
  assumes "\<forall>i\<in>set is. \<forall>b\<in>set (page_blocks (pages ! i)). \<not> prefix (lit ''## Page '') b"
  shows "heading_lines (concat (map (\<lambda>i. page_section (i + 1) (pages ! i)) is)) =
           map (\<lambda>i. page_heading (i + 1)) is"
  using assms
proof (induction "is")
  case Nil
  then show ?case by (simp add: heading_lines_Nil)
next
  case (Cons i "is")
  then show ?case by (simp add: heading_lines_section)
qed

text \<open>
  C2, as amended. When no paragraph of the document begins, once cleaned, with
  \<^verbatim>\<open>## Page \<close>, the heading lines of the markdown text are exactly
  \<^verbatim>\<open>## Page 1\<close> to \<^verbatim>\<open>## Page pageCount\<close>, in this order: there are as many as
  pages, no two are equal, and the numbers they carry are 1 to pageCount.
\<close>

theorem page_headings:
  assumes "\<forall>text\<in>set pages. \<forall>paragraph\<in>set (str_split text [NL, NL]).
             \<not> prefix (lit ''## Page '') (clean_paragraph paragraph)"
  shows "heading_lines (markdown_of_pages pages) = map page_heading [1..<Suc (length pages)]
         \<and> length (heading_lines (markdown_of_pages pages)) = length pages
         \<and> distinct (heading_lines (markdown_of_pages pages))
         \<and> map (\<lambda>l. nat_of_digits (drop 8 l)) (heading_lines (markdown_of_pages pages))
               = [1..<Suc (length pages)]"
proof -
  have "\<forall>i\<in>set [0..<length pages]. \<forall>b\<in>set (page_blocks (pages ! i)).
          \<not> prefix (lit ''## Page '') b"
    using assms by (auto simp: page_blocks_def)
  then have "heading_lines (markdown_of_pages pages) =
      map (\<lambda>i. page_heading (i + 1)) [0..<length pages]"
    by (simp only: markdown_of_pages_def pages_loop_eq append_Nil heading_lines_sections)
  also have "\<dots> = map page_heading (map Suc [0..<length pages])"
    by simp
  also have "map Suc [0..<length pages] = [1..<Suc (length pages)]"
    by (simp only: map_Suc_upt One_nat_def)
  finally have eq: "heading_lines (markdown_of_pages pages) = map page_heading [1..<Suc (length pages)]" .
  have "inj page_heading"
    using inj_str_nat by (auto simp: inj_def page_heading_def)
  then have "distinct (map page_heading [1..<Suc (length pages)])"
    by (simp add: distinct_map inj_on_def inj_def)
  moreover have "map (\<lambda>l. nat_of_digits (drop 8 l)) (map page_heading [1..<Suc (length pages)])
      = [1..<Suc (length pages)]"
    by (simp add: page_heading_def lit_def nat_of_digits_str_nat comp_def)
  ultimately show ?thesis using eq by (simp del: upt_Suc)
qed

theorem page_headings_witness:
  "\<not> prefix (lit ''## Page '') (clean_paragraph (lit ''Intro''))
   \<and> \<not> prefix (lit ''## Page '') (clean_paragraph (lit ''End''))
   \<and> heading_lines (markdown_of_pages [lit ''Intro'', lit ''End'']) = [lit ''## Page 1'', lit ''## Page 2'']"
proof -
  have split: "str_split (lit ''Intro'') [NL, NL] = [lit ''Intro'']"
    "str_split (lit ''End'') [NL, NL] = [lit ''End'']"
    by (simp_all add: str_split_def lit_def NL_def)
  have clean: "\<not> prefix (lit ''## Page '') (clean_paragraph (lit ''Intro''))"
    "\<not> prefix (lit ''## Page '') (clean_paragraph (lit ''End''))"
    by (simp_all add: clean_paragraph_def str_strip_def isspace_def lit_def NL_def SP_def)
  have "\<forall>text\<in>set [lit ''Intro'', lit ''End'']. \<forall>paragraph\<in>set (str_split text [NL, NL]).
             \<not> prefix (lit ''## Page '') (clean_paragraph paragraph)"
    using clean by (simp add: split)
  from page_headings [OF this]
  have "heading_lines (markdown_of_pages [lit ''Intro'', lit ''End'']) = map page_heading [1..<Suc (length [lit ''Intro'', lit ''End''])]"
    by blast
  also have "\<dots> = [lit ''## Page 1'', lit ''## Page 2'']"
    by (simp add: page_heading_def str_nat.simps lit_def upt_conv_Cons)
  finally show ?thesis using clean by simp
qed

text \<open>
  C2 as stated fails for a document of one page whose text is \<^verbatim>\<open>## Page 1\<close>: the
  paragraph is copied as it is, and the markdown text has two heading lines for one page.
\<close>

theorem page_headings_counterexample:
  "heading_lines (markdown_of_pages [lit ''## Page 1'']) = [lit ''## Page 1'', lit ''## Page 1'']
   \<and> length (heading_lines (markdown_of_pages [lit ''## Page 1''])) \<noteq> length [lit ''## Page 1'']
   \<and> \<not> distinct (heading_lines (markdown_of_pages [lit ''## Page 1'']))"
proof -
  have md: "markdown_of_pages [lit ''## Page 1''] = lit ''\<newline>## Page 1\<newline>\<newline>## Page 1\<newline>\<newline>''"
    by (simp add: markdown_of_pages_def pages_loop.simps str_nat.simps lit_def NL_def SP_def
        str_split_def clean_paragraph_def str_strip_def isspace_def)
  have "heading_lines (lit ''\<newline>## Page 1\<newline>\<newline>## Page 1\<newline>\<newline>'') = [lit ''## Page 1'', lit ''## Page 1'']"
    by (simp add: heading_lines_def str_split_def lit_def NL_def)
  then show ?thesis by (simp add: md)
qed

section \<open>Effects of one step\<close>

lemma log_simps:
  "info m w = w\<lparr>trace := trace w @ [Log Info m]\<rparr>"
  "success m w = w\<lparr>trace := trace w @ [Log Success m]\<rparr>"
  "error m w = w\<lparr>trace := trace w @ [Log Error m]\<rparr>"
  "warning m w = w\<lparr>trace := trace w @ [Log Warning m]\<rparr>"
  by (simp_all add: info_def success_def error_def warning_def print_message_with_timestamp_def emit_def)

lemma open_for_writing_Inr:
  "open_for_writing p w = Inr w1 \<Longrightarrow> w1 = w\<lparr>files := (files w)(p \<mapsto> [])\<rparr>"
  by (auto simp: open_for_writing_def split: if_splits)

lemma write_file_Some: "write_file p d w = (Some e, w') \<Longrightarrow> w' = w"
  by (auto simp: write_file_def split: sum.splits)

lemma write_file_None:
  "write_file p d w = (None, w') \<Longrightarrow> w' = w\<lparr>files := (files w)(p \<mapsto> d)\<rparr>"
  by (auto simp: write_file_def split: sum.splits dest!: open_for_writing_Inr)

lemma download_pdf_Some:
  "download_pdf r d f w = (Some e, w') \<Longrightarrow> w' = emit (DownloadPdf d f) w"
  by (auto simp: download_pdf_def Let_def split: sum.splits dest: write_file_Some)

lemma download_pdf_None:
  "download_pdf r d f w = (None, w') \<Longrightarrow>
     \<exists>data. fetch r = Inr data \<and>
       w' = (emit (DownloadPdf d f) w)\<lparr>files := (files w)(os_path_join d f \<mapsto> data)\<rparr>"
  by (auto simp: download_pdf_def Let_def emit_def split: sum.splits dest!: write_file_None)

lemma download_pdf_trace_indep:
  "fst (download_pdf r d f (w\<lparr>trace := t\<rparr>)) = fst (download_pdf r d f w)"
  by (simp add: download_pdf_def write_file_def open_for_writing_def emit_def Let_def
      split: sum.splits)

lemma convert_pdf_to_markdown_cases:
  "convert_pdf_to_markdown ev p w = (res, w') \<Longrightarrow> w' = w \<or> (\<exists>m. w' = emit (Print m) w)"
  by (auto simp: convert_pdf_to_markdown_def Let_def split: sum.splits exn.splits)

lemma convert_pdf_to_markdown_frame:
  "convert_pdf_to_markdown ev p w = (res, w') \<Longrightarrow>
     files w' = files w \<and> dirs w' = dirs w \<and> (\<exists>evs. trace w' = trace w @ evs)"
  by (auto dest!: convert_pdf_to_markdown_cases simp: emit_def)

lemma convert_pdf_to_markdown_Inr:
  "convert_pdf_to_markdown ev p w = (Inr content, w') \<Longrightarrow> w' = w"
  by (auto simp: convert_pdf_to_markdown_def Let_def split: sum.splits exn.splits)

lemma convert_body_off: "\<not> markdown a \<Longrightarrow> convert_body a ev pd md r w = (None, w)"
  by (simp add: convert_body_def)

lemma convert_body_Inl:
  "markdown a \<Longrightarrow> convert_pdf_to_markdown ev (pd @ title r @ lit ''.pdf'') w = (Inl e, w1) \<Longrightarrow>
     convert_body a ev pd md r w = (Some e, w1)"
  by (simp add: convert_body_def)

lemma convert_body_Inr:
  "markdown a \<Longrightarrow> convert_pdf_to_markdown ev (pd @ title r @ lit ''.pdf'') w = (Inr content, w1) \<Longrightarrow>
     convert_body a ev pd md r w =
       (case open_for_writing (md @ title r @ lit ''.md'')
               (emit (OpenWrite (md @ title r @ lit ''.md'')) w) of
          Inl e \<Rightarrow> (Some e, emit (OpenWrite (md @ title r @ lit ''.md'')) w)
        | Inr w2 \<Rightarrow>
            (case encode ev content of
               Inl e \<Rightarrow> (Some e, w2)
             | Inr bytes \<Rightarrow>
                 (None, success (lit ''Converted '' @ title r @ lit '' to Markdown'')
                    (w2\<lparr>files := (files w2)(md @ title r @ lit ''.md'' \<mapsto> bytes)\<rparr>))))"
  by (frule convert_pdf_to_markdown_Inr) (simp add: convert_body_def)

text \<open>What the conversion block can leave: one of five worlds.\<close>

lemma convert_body_cases:
  assumes "convert_body a ev pd md r w = (res, w')"
  shows "(\<not> markdown a \<and> res = None \<and> w' = w)
     \<or> (markdown a \<and> res \<noteq> None \<and> (w' = w \<or> (\<exists>m. w' = emit (Print m) w)))
     \<or> (markdown a \<and> res \<noteq> None \<and> w' = emit (OpenWrite (md @ title r @ lit ''.md'')) w)
     \<or> (markdown a \<and> res \<noteq> None
          \<and> w' = (emit (OpenWrite (md @ title r @ lit ''.md'')) w)
                  \<lparr>files := (files w)(md @ title r @ lit ''.md'' \<mapsto> [])\<rparr>)
     \<or> (markdown a \<and> res = None
          \<and> (\<exists>bytes. w' = success (lit ''Converted '' @ title r @ lit '' to Markdown'')
                ((emit (OpenWrite (md @ title r @ lit ''.md'')) w)
                   \<lparr>files := (files w)(md @ title r @ lit ''.md'' \<mapsto> bytes)\<rparr>)))"
proof (cases "markdown a")
  case False
  with assms show ?thesis by (simp add: convert_body_off)
next
  case True
  obtain res1 w1 where c: "convert_pdf_to_markdown ev (pd @ title r @ lit ''.pdf'') w = (res1, w1)"
    by force
  show ?thesis
  proof (cases res1)
    case (Inl e)
    with assms True c have "res = Some e" "w' = w1"
      by (simp_all add: convert_body_Inl)
    with convert_pdf_to_markdown_cases [OF c] True show ?thesis by auto
  next
    case (Inr content)
    let ?p = "md @ title r @ lit ''.md''"
    note cb = convert_body_Inr [OF True c [unfolded Inr], of md]
    show ?thesis
    proof (cases "open_for_writing ?p (emit (OpenWrite ?p) w)")
      case (Inl e)
      with assms cb have "res = Some e" "w' = emit (OpenWrite ?p) w"
        by simp_all
      with True show ?thesis by simp
    next
      case (Inr w2)
      note op = this
      from open_for_writing_Inr [OF op]
      have w2: "w2 = (emit (OpenWrite ?p) w)\<lparr>files := (files w)(?p \<mapsto> [])\<rparr>"
        by (simp add: emit_def)
      show ?thesis
      proof (cases "encode ev content")
        case (Inl e)
        with assms cb op have "res = Some e" "w' = w2"
          by simp_all
        with True w2 show ?thesis by simp
      next
        case (Inr bytes)
        with assms cb op have "res = None"
          "w' = success (lit ''Converted '' @ title r @ lit '' to Markdown'')
                  (w2\<lparr>files := (files w2)(?p \<mapsto> bytes)\<rparr>)"
          by simp_all
        moreover have "w2\<lparr>files := (files w2)(?p \<mapsto> bytes)\<rparr>
            = (emit (OpenWrite ?p) w)\<lparr>files := (files w)(?p \<mapsto> bytes)\<rparr>"
          by (simp add: w2 emit_def)
        ultimately show ?thesis using True by auto
      qed
    qed
  qed
qed

lemma convert_body_frame:
  assumes "convert_body a ev pd md r w = (res, w')"
  shows "dirs w' = dirs w \<and> (\<forall>q. q \<noteq> md @ title r @ lit ''.md'' \<longrightarrow> files w' q = files w q)
     \<and> (\<not> markdown a \<longrightarrow> w' = w) \<and> (res \<noteq> None \<longrightarrow> markdown a)
     \<and> (\<exists>evs. trace w' = trace w @ evs)"
  using convert_body_cases [OF assms]
  by (elim disjE conjE exE) (auto simp: emit_def log_simps)

lemma written_by_append: "written_by (xs @ ys) p \<longleftrightarrow> written_by xs p \<or> written_by ys p"
  by (simp add: written_by_def list_ex_append)

lemma extends_refl: "extends ok w w"
  by (simp add: extends_def written_by_def)

lemma extends_trans:
  assumes "extends ok w w1" and "extends ok w1 w2"
  shows "extends ok w w2"
proof -
  from assms(1) obtain evs1 where 1: "dirs w \<subseteq> dirs w1" "trace w1 = trace w @ evs1"
    "\<forall>e\<in>set evs1. ok e" "\<forall>p. files w1 p \<noteq> files w p \<longrightarrow> written_by evs1 p"
    unfolding extends_def by blast
  from assms(2) obtain evs2 where 2: "dirs w1 \<subseteq> dirs w2" "trace w2 = trace w1 @ evs2"
    "\<forall>e\<in>set evs2. ok e" "\<forall>p. files w2 p \<noteq> files w1 p \<longrightarrow> written_by evs2 p"
    unfolding extends_def by blast
  have "trace w2 = trace w @ (evs1 @ evs2)"
    using 1(2) 2(2) by simp
  moreover have "\<forall>e\<in>set (evs1 @ evs2). ok e"
    using 1(3) 2(3) by auto
  moreover have "\<forall>p. files w2 p \<noteq> files w p \<longrightarrow> written_by (evs1 @ evs2) p"
  proof (intro allI impI)
    fix p
    assume "files w2 p \<noteq> files w p"
    then have "files w2 p \<noteq> files w1 p \<or> files w1 p \<noteq> files w p" by auto
    with 1(4) 2(4) show "written_by (evs1 @ evs2) p"
      by (auto simp: written_by_append)
  qed
  moreover have "dirs w \<subseteq> dirs w2"
    using 1(1) 2(1) by (rule subset_trans)
  ultimately show ?thesis
    unfolding extends_def by blast
qed

lemma extends_mono:
  assumes "extends ok w w'" and "\<And>e. ok e \<Longrightarrow> ok' e"
  shows "extends ok' w w'"
  using assms unfolding extends_def by blast

lemma extendsI:
  assumes "dirs w \<subseteq> dirs w'" and "trace w' = trace w @ evs" and "\<forall>e\<in>set evs. ok e"
    and "\<forall>p. files w' p \<noteq> files w p \<longrightarrow> written_by evs p"
  shows "extends ok w w'"
  using assms unfolding extends_def by blast

lemma extends_new_events:
  assumes "extends ok w w'"
  shows "trace w' = trace w @ new_events w w'"
    and "\<forall>e\<in>set (new_events w w'). ok e"
    and "\<forall>p. files w' p \<noteq> files w p \<longrightarrow> written_by (new_events w w') p"
proof -
  from assms obtain evs where evs: "trace w' = trace w @ evs" "\<forall>e\<in>set evs. ok e"
    "\<forall>p. files w' p \<noteq> files w p \<longrightarrow> written_by evs p"
    unfolding extends_def by blast
  then have "new_events w w' = evs"
    by (simp add: new_events_def)
  with evs show "trace w' = trace w @ new_events w w'"
    and "\<forall>e\<in>set (new_events w w'). ok e"
    and "\<forall>p. files w' p \<noteq> files w p \<longrightarrow> written_by (new_events w w') p"
    by simp_all
qed

lemma extends_log: "extends ok w w1 \<Longrightarrow> ok (Log s m) \<Longrightarrow> extends ok w (w1\<lparr>trace := trace w1 @ [Log s m]\<rparr>)"
  by (rule extends_trans [where ?w1.0 = w1], assumption)
    (rule extendsI [where evs = "[Log s m]"], simp_all)

lemma requested_in_simps:
  "requested_in cv pd md (Log s m)"
  "requested_in cv pd md (Print m)"
  "requested_in cv pd md (DownloadPdf pd (t @ lit ''.pdf''))"
  "cv \<Longrightarrow> requested_in cv pd md (OpenWrite (md @ t @ lit ''.md''))"
  "requested_in cv pd md (Makedirs pd True)"
  "requested_in cv pd md (Makedirs md True)"
  by (simp_all add: requested_in_def suffix_def)

lemma convert_body_extends:
  assumes "convert_body a ev pd md r w = (res, w')"
  shows "extends (requested_in (markdown a) pd md) w w'"
proof -
  let ?p = "md @ title r @ lit ''.md''"
  let ?ok = "requested_in (markdown a) pd md"
  from convert_body_cases [OF assms]
  consider "w' = w"
    | m where "w' = emit (Print m) w"
    | "markdown a" "w' = emit (OpenWrite ?p) w"
    | "markdown a" "w' = (emit (OpenWrite ?p) w)\<lparr>files := (files w)(?p \<mapsto> [])\<rparr>"
    | bytes where "markdown a" "w' = success (lit ''Converted '' @ title r @ lit '' to Markdown'')
                ((emit (OpenWrite ?p) w)\<lparr>files := (files w)(?p \<mapsto> bytes)\<rparr>)"
    by blast
  then show ?thesis
  proof cases
    case 1
    then show ?thesis by (simp add: extends_refl)
  next
    case (2 m)
    show ?thesis
      by (rule extendsI [where evs = "[Print m]"])
        (simp_all add: 2 emit_def requested_in_simps)
  next
    case 3
    show ?thesis
      by (rule extendsI [where evs = "[OpenWrite ?p]"])
        (simp_all add: 3 emit_def requested_in_simps)
  next
    case 4
    show ?thesis
      by (rule extendsI [where evs = "[OpenWrite ?p]"])
        (simp_all add: 4 emit_def requested_in_simps written_by_def)
  next
    case (5 bytes)
    show ?thesis
      by (rule extendsI [where evs = "[OpenWrite ?p,
            Log Success (lit ''Converted '' @ title r @ lit '' to Markdown'')]"])
        (simp_all add: 5 emit_def log_simps requested_in_simps written_by_def)
  qed
qed

lemma result_body_download_failed:
  "download_pdf r pd (title r @ lit ''.pdf'')
     (info (lit ''Downloading '' @ str_nat (i + 1) @ lit ''/'' @ str_int (max_results a) @ lit '': '' @ title r) w)
     = (Some e, w2) \<Longrightarrow>
   result_body a ev pd md i r w =
     (if isinstance_Exception e
      then (None, error (lit ''Error downloading '' @ title r @ lit '': '' @ str_exn e) w2)
      else (Some e, w2))"
  by (simp add: result_body_def)

lemma result_body_downloaded:
  "download_pdf r pd (title r @ lit ''.pdf'')
     (info (lit ''Downloading '' @ str_nat (i + 1) @ lit ''/'' @ str_int (max_results a) @ lit '': '' @ title r) w)
     = (None, w2) \<Longrightarrow>
   result_body a ev pd md i r w =
     (case convert_body a ev pd md r (success (lit ''Downloaded '' @ title r) w2) of
        (Some e, w3) \<Rightarrow>
          (if isinstance_Exception e
           then (None, error (lit ''Error converting '' @ title r @ lit '' to Markdown: '' @ str_exn e) w3)
           else (Some e, w3))
      | (None, w3) \<Rightarrow> (None, w3))"
  by (simp add: result_body_def)

lemma result_body_frame:
  assumes "result_body a ev pd md i r w = (res, w')"
  shows "dirs w' = dirs w \<and> extends (requested_in (markdown a) pd md) w w'"
proof -
  let ?ok = "requested_in (markdown a) pd md"
  let ?m = "lit ''Downloading '' @ str_nat (i + 1) @ lit ''/'' @ str_int (max_results a) @ lit '': '' @ title r"
  let ?f = "title r @ lit ''.pdf''"
  let ?w1 = "info ?m w"
  obtain res2 w2 where dl: "download_pdf r pd ?f ?w1 = (res2, w2)"
    by force
  show ?thesis
  proof (cases res2)
    case (Some e)
    with dl have w2: "w2 = emit (DownloadPdf pd ?f) ?w1"
      by (auto dest: download_pdf_Some)
    have ext2: "extends ?ok w w2"
      by (rule extendsI [where evs = "[Log Info ?m, DownloadPdf pd ?f]"])
        (simp_all add: w2 emit_def log_simps requested_in_simps)
    from dl Some assms have "w' = w2 \<or> w' = error (lit ''Error downloading '' @ title r @ lit '': '' @ str_exn e) w2"
      by (auto simp: result_body_download_failed split: if_splits)
    then show ?thesis
    proof
      assume "w' = w2"
      with ext2 show ?thesis by (simp add: w2 emit_def log_simps)
    next
      assume w': "w' = error (lit ''Error downloading '' @ title r @ lit '': '' @ str_exn e) w2"
      have "extends ?ok w w'"
        unfolding w' log_simps by (rule extends_log [OF ext2]) (simp add: requested_in_simps)
      then show ?thesis by (simp add: w' w2 emit_def log_simps)
    qed
  next
    case None
    with dl obtain data where w2: "w2 = (emit (DownloadPdf pd ?f) ?w1)
        \<lparr>files := (files ?w1)(os_path_join pd ?f \<mapsto> data)\<rparr>"
      by (auto dest: download_pdf_None)
    let ?w2s = "success (lit ''Downloaded '' @ title r) w2"
    have ext2: "extends ?ok w ?w2s"
      by (rule extendsI [where evs = "[Log Info ?m, DownloadPdf pd ?f,
            Log Success (lit ''Downloaded '' @ title r)]"])
        (simp_all add: w2 emit_def log_simps requested_in_simps written_by_def)
    obtain res3 w3 where cb: "convert_body a ev pd md r ?w2s = (res3, w3)"
      by force
    from convert_body_frame [OF cb] have d3: "dirs w3 = dirs w"
      by (simp add: w2 emit_def log_simps)
    have ext3: "extends ?ok w w3"
      by (rule extends_trans [OF ext2 convert_body_extends [OF cb]])
    from dl None assms cb have "w' = w3 \<or> (\<exists>m. w' = error m w3)"
      by (auto simp: result_body_downloaded split: option.splits if_splits)
    then show ?thesis
    proof
      assume "w' = w3"
      with ext3 d3 show ?thesis by simp
    next
      assume "\<exists>m. w' = error m w3"
      then obtain m where w': "w' = error m w3" ..
      have "extends ?ok w w'"
        unfolding w' log_simps by (rule extends_log [OF ext3]) (simp add: requested_in_simps)
      with d3 show ?thesis by (simp add: w' log_simps)
    qed
  qed
qed

lemma results_loop_frame:
  "results_loop a ev pd md i seq w = (res, w') \<Longrightarrow>
     dirs w' = dirs w \<and> extends (requested_in (markdown a) pd md) w w'"
proof (induction seq arbitrary: i w)
  case Stop
  then show ?case by (simp add: extends_refl)
next
  case (Raise e)
  then show ?case by (simp add: extends_refl)
next
  case (Yield r rest)
  obtain res1 w1 where rb: "result_body a ev pd md i r w = (res1, w1)"
    by force
  note fr = result_body_frame [OF rb]
  show ?case
  proof (cases res1)
    case (Some e)
    with rb Yield.prems have "w' = w1" by simp
    with fr show ?thesis by simp
  next
    case None
    with rb Yield.prems have "results_loop a ev pd md (i + 1) rest w1 = (res, w')"
      by simp
    from Yield.IH [OF this] fr show ?thesis
      by (auto intro: extends_trans)
  qed
qed

section \<open>Failures of one record\<close>

text \<open>
  C3. When the download of a record raises an \<^verbatim>\<open>Exception\<close>, the loop over the
  results goes on with the next record and the next index, in a world that differs from
  the one before the record only by three entries of the trace: the line announcing the
  download, the call, and an error line that holds the title of the record and the text
  of the exception. Nothing ends the query or the run there.
\<close>

theorem download_failure_continues:
  assumes "fst (download_pdf each_result output_pdf_dir (title each_result @ lit ''.pdf'') w) = Some e"
    and "isinstance_Exception e"
  shows "results_loop a ev output_pdf_dir output_md_dir index (Yield each_result rest) w =
         results_loop a ev output_pdf_dir output_md_dir (index + 1) rest
           (w\<lparr>trace := trace w @
              [Log Info (lit ''Downloading '' @ str_nat (index + 1) @ lit ''/''
                 @ str_int (max_results a) @ lit '': '' @ title each_result),
               DownloadPdf output_pdf_dir (title each_result @ lit ''.pdf''),
               Log Error (lit ''Error downloading '' @ title each_result @ lit '': '' @ str_exn e)]\<rparr>)"
proof -
  let ?m = "lit ''Downloading '' @ str_nat (index + 1) @ lit ''/''
                 @ str_int (max_results a) @ lit '': '' @ title each_result"
  let ?f = "title each_result @ lit ''.pdf''"
  obtain res2 w2 where dl: "download_pdf each_result output_pdf_dir ?f (info ?m w) = (res2, w2)"
    by force
  have "fst (download_pdf each_result output_pdf_dir ?f (info ?m w)) = Some e"
    using assms(1) by (simp only: log_simps download_pdf_trace_indep)
  with dl have res2: "res2 = Some e" by simp
  with dl have w2: "w2 = emit (DownloadPdf output_pdf_dir ?f) (info ?m w)"
    by (auto dest: download_pdf_Some)
  have "result_body a ev output_pdf_dir output_md_dir index each_result w =
      (None, error (lit ''Error downloading '' @ title each_result @ lit '': '' @ str_exn e) w2)"
    using dl res2 assms(2) by (simp add: result_body_download_failed)
  then show ?thesis
    by (simp add: w2 log_simps emit_def)
qed

lemmas eval_simps = result_body_def download_pdf_def write_file_def open_for_writing_def
    open_for_reading_def os_path_join_def name_too_long_def utf8_length_def basename_def
    rstrip_slash_def dirname_def emit_def log_simps convert_body_def convert_pdf_to_markdown_def
    Let_def lit_def str_nat.simps str_int_def

theorem download_failure_continues_witness:
  "results_loop example_args example_env (lit ''./pdfs/q/'') (lit ''./mds/q/'') 0
     (Yield paper_a (Yield paper_b (Yield paper_c Stop))) example_world =
   (None, example_world
      \<lparr>files := [lit ''./pdfs/q/A.pdf'' \<mapsto> [1], lit ''./pdfs/q/C.pdf'' \<mapsto> [3]],
       trace :=
         [Log Info (lit ''Downloading 1/10: A''),
          DownloadPdf (lit ''./pdfs/q/'') (lit ''A.pdf''),
          Log Success (lit ''Downloaded A''),
          Log Info (lit ''Downloading 2/10: B''),
          DownloadPdf (lit ''./pdfs/q/'') (lit ''B.pdf''),
          Log Error (lit ''Error downloading B: 404''),
          Log Info (lit ''Downloading 3/10: C''),
          DownloadPdf (lit ''./pdfs/q/'') (lit ''C.pdf''),
          Log Success (lit ''Downloaded C'')]\<rparr>)"
proof -
  let ?loop = "results_loop example_args example_env (lit ''./pdfs/q/'') (lit ''./mds/q/'')"
  let ?w1 = "example_world
      \<lparr>files := [lit ''./pdfs/q/A.pdf'' \<mapsto> [1]],
       trace :=
         [Log Info (lit ''Downloading 1/10: A''),
          DownloadPdf (lit ''./pdfs/q/'') (lit ''A.pdf''),
          Log Success (lit ''Downloaded A'')]\<rparr>"
  have first: "?loop 0 (Yield paper_a rest) example_world = ?loop 1 rest ?w1" for rest
    by (simp add: eval_simps paper_a_def example_args_def example_world_def)
  have fails: "fst (download_pdf paper_b (lit ''./pdfs/q/'') (title paper_b @ lit ''.pdf'') ?w1)
      = Some (OtherException (lit ''404''))"
    by (simp add: download_pdf_def paper_b_def Let_def)
  have exn: "isinstance_Exception (OtherException (lit ''404''))"
    by simp
  have "?loop 0 (Yield paper_a (Yield paper_b (Yield paper_c Stop))) example_world
      = ?loop 1 (Yield paper_b (Yield paper_c Stop)) ?w1"
    by (rule first)
  also note download_failure_continues [OF fails exn, of example_args example_env "lit ''./mds/q/''" 1
      "Yield paper_c Stop"]
  finally show ?thesis
    by (simp add: eval_simps paper_b_def paper_c_def example_args_def example_world_def)
qed

lemma last_os_path_join: "b \<noteq> [] \<Longrightarrow> last (os_path_join a b) = last b"
  by (simp add: os_path_join_def)

lemma pdf_path_not_md_path:
  "os_path_join a (t @ lit ''.pdf'') \<noteq> m @ t' @ lit ''.md''"
proof
  assume "os_path_join a (t @ lit ''.pdf'') = m @ t' @ lit ''.md''"
  then have "last (os_path_join a (t @ lit ''.pdf'')) = last (m @ t' @ lit ''.md'')"
    by simp
  moreover have "last (os_path_join a (t @ lit ''.pdf'')) = 102"
    by (subst last_os_path_join) (simp_all add: lit_def)
  moreover have "last (m @ t' @ lit ''.md'') = 100"
    by (simp add: lit_def)
  ultimately show False by simp
qed

text \<open>
  C4. When the download of a record succeeds and the conversion raises an
  \<^verbatim>\<open>Exception\<close>, which needs the conversion to be switched on, the loop over the
  results goes on with the next record after an error line that holds the title and the
  text of the exception, and the file that the download stored, at the join of the
  directory and the file name, still holds the downloaded bytes.
\<close>

theorem conversion_failure_keeps_pdf:
  assumes "download_pdf each_result output_pdf_dir (title each_result @ lit ''.pdf'')
             (info (lit ''Downloading '' @ str_nat (index + 1) @ lit ''/''
                      @ str_int (max_results a) @ lit '': '' @ title each_result) w) = (None, w2)"
    and "convert_body a ev output_pdf_dir output_md_dir each_result
           (success (lit ''Downloaded '' @ title each_result) w2) = (Some e, w3)"
    and "isinstance_Exception e"
  shows "markdown a
    \<and> results_loop a ev output_pdf_dir output_md_dir index (Yield each_result rest) w =
        results_loop a ev output_pdf_dir output_md_dir (index + 1) rest
          (error (lit ''Error converting '' @ title each_result @ lit '' to Markdown: '' @ str_exn e) w3)
    \<and> (\<exists>data. fetch each_result = Inr data
          \<and> files w2 (os_path_join output_pdf_dir (title each_result @ lit ''.pdf'')) = Some data
          \<and> files w3 (os_path_join output_pdf_dir (title each_result @ lit ''.pdf'')) = Some data
          \<and> files (error (lit ''Error converting '' @ title each_result @ lit '' to Markdown: ''
                            @ str_exn e) w3)
               (os_path_join output_pdf_dir (title each_result @ lit ''.pdf'')) = Some data)"
proof -
  let ?pdf = "os_path_join output_pdf_dir (title each_result @ lit ''.pdf'')"
  from download_pdf_None [OF assms(1)] obtain data where data: "fetch each_result = Inr data"
    and w2: "files w2 ?pdf = Some data"
    by auto
  from convert_body_frame [OF assms(2)] have md: "markdown a"
    and same: "files w3 ?pdf = files w2 ?pdf"
    by (simp_all add: log_simps pdf_path_not_md_path)
  have "result_body a ev output_pdf_dir output_md_dir index each_result w =
      (None, error (lit ''Error converting '' @ title each_result @ lit '' to Markdown: '' @ str_exn e) w3)"
    using assms by (simp add: result_body_downloaded)
  then have "results_loop a ev output_pdf_dir output_md_dir index (Yield each_result rest) w =
        results_loop a ev output_pdf_dir output_md_dir (index + 1) rest
          (error (lit ''Error converting '' @ title each_result @ lit '' to Markdown: '' @ str_exn e) w3)"
    by simp
  with md data w2 same show ?thesis
    by (simp add: log_simps)
qed

theorem conversion_failure_keeps_pdf_witness:
  "results_loop (example_args\<lparr>markdown := True\<rparr>) example_env (lit ''./pdfs/q/'') (lit ''./mds/q/'') 0
     (Yield paper_c (Yield paper_a Stop)) example_world =
   (None, example_world
      \<lparr>files := [lit ''./pdfs/q/C.pdf'' \<mapsto> [3], lit ''./pdfs/q/A.pdf'' \<mapsto> [1],
                 lit ''./mds/q/A.md'' \<mapsto> lit ''\<newline>## Page 1\<newline>\<newline>Hi\<newline>\<newline>''],
       trace :=
         [Log Info (lit ''Downloading 1/10: C''),
          DownloadPdf (lit ''./pdfs/q/'') (lit ''C.pdf''),
          Log Success (lit ''Downloaded C''),
          Print (lit ''Error reading PDF file: bad''),
          Log Error (lit ''Error converting C to Markdown: bad''),
          Log Info (lit ''Downloading 2/10: A''),
          DownloadPdf (lit ''./pdfs/q/'') (lit ''A.pdf''),
          Log Success (lit ''Downloaded A''),
          OpenWrite (lit ''./mds/q/A.md''),
          Log Success (lit ''Converted A to Markdown'')]\<rparr>)"
proof -
  let ?a = "example_args\<lparr>markdown := True\<rparr>"
  let ?w2 = "example_world
      \<lparr>files := [lit ''./pdfs/q/C.pdf'' \<mapsto> [3]],
       trace := [Log Info (lit ''Downloading 1/10: C''),
          DownloadPdf (lit ''./pdfs/q/'') (lit ''C.pdf'')]\<rparr>"
  let ?w3 = "example_world
      \<lparr>files := [lit ''./pdfs/q/C.pdf'' \<mapsto> [3]],
       trace := [Log Info (lit ''Downloading 1/10: C''),
          DownloadPdf (lit ''./pdfs/q/'') (lit ''C.pdf''),
          Log Success (lit ''Downloaded C''),
          Print (lit ''Error reading PDF file: bad'')]\<rparr>"
  have dl: "download_pdf paper_c (lit ''./pdfs/q/'') (title paper_c @ lit ''.pdf'')
             (info (lit ''Downloading '' @ str_nat (0 + 1) @ lit ''/''
                      @ str_int (max_results ?a) @ lit '': '' @ title paper_c) example_world) = (None, ?w2)"
    by (simp add: eval_simps paper_c_def example_args_def example_world_def)
  have cv: "convert_body ?a example_env (lit ''./pdfs/q/'') (lit ''./mds/q/'') paper_c
           (success (lit ''Downloaded '' @ title paper_c) ?w2) = (Some (PdfReadError (lit ''bad'')), ?w3)"
    by (simp add: eval_simps paper_c_def example_args_def example_world_def example_env_def)
  have exn: "isinstance_Exception (PdfReadError (lit ''bad''))"
    by simp
  from conversion_failure_keeps_pdf [OF dl cv exn, of "Yield paper_a Stop"]
  have "results_loop ?a example_env (lit ''./pdfs/q/'') (lit ''./mds/q/'') 0
          (Yield paper_c (Yield paper_a Stop)) example_world =
        results_loop ?a example_env (lit ''./pdfs/q/'') (lit ''./mds/q/'') (0 + 1) (Yield paper_a Stop)
          (error (lit ''Error converting '' @ title paper_c @ lit '' to Markdown: ''
                    @ str_exn (PdfReadError (lit ''bad''))) ?w3)"
    by blast
  then show ?thesis
    by (simp add: eval_simps paper_a_def paper_c_def example_args_def example_world_def example_env_def
        markdown_of_pages_def pages_loop.simps str_split_def clean_paragraph_def str_strip_def
        isspace_def NL_def SP_def)
qed

section \<open>Conversion as a function\<close>

text \<open>
  C9. The result of \<^verbatim>\<open>convert_pdf_to_markdown\<close> is a function of what the reader
  extracts from the bytes of the file: two calls, on any paths and in any worlds, whose
  files hold bytes with the same extraction give the same result, in particular two calls
  on the same bytes. When the extraction gives pages, the result is the markdown text of
  these pages and the world is left as it was; in every case the files and directories
  are left as they were.
\<close>

theorem convert_pure_deterministic:
  assumes "files w1 path1 = Some pdf1" and "files w2 path2 = Some pdf2"
    and "pdf_reader ev1 pdf1 = pdf_reader ev2 pdf2"
  shows "fst (convert_pdf_to_markdown ev1 path1 w1) = fst (convert_pdf_to_markdown ev2 path2 w2)
     \<and> (\<forall>pages. pdf_reader ev1 pdf1 = Inr pages \<longrightarrow>
           convert_pdf_to_markdown ev1 path1 w1 = (Inr (markdown_of_pages pages), w1))
     \<and> files (snd (convert_pdf_to_markdown ev1 path1 w1)) = files w1
     \<and> dirs (snd (convert_pdf_to_markdown ev1 path1 w1)) = dirs w1"
proof -
  have same: "fst (convert_pdf_to_markdown ev1 path1 w1) = fst (convert_pdf_to_markdown ev2 path2 w2)"
    using assms
    by (cases "pdf_reader ev2 pdf2")
      (auto simp: convert_pdf_to_markdown_def open_for_reading_def split: exn.splits)
  have content: "\<forall>pages. pdf_reader ev1 pdf1 = Inr pages \<longrightarrow>
           convert_pdf_to_markdown ev1 path1 w1 = (Inr (markdown_of_pages pages), w1)"
    using assms(1) by (simp add: convert_pdf_to_markdown_def open_for_reading_def)
  obtain res w' where "convert_pdf_to_markdown ev1 path1 w1 = (res, w')"
    by force
  from convert_pdf_to_markdown_frame [OF this] this same content show ?thesis
    by simp
qed

theorem convert_pure_deterministic_witness:
  "fst (convert_pdf_to_markdown example_env (lit ''a.pdf'')
          (example_world\<lparr>files := [lit ''a.pdf'' \<mapsto> [1]]\<rparr>)) =
   fst (convert_pdf_to_markdown example_env (lit ''b.pdf'')
          (example_world\<lparr>files := [lit ''b.pdf'' \<mapsto> [1], lit ''a.pdf'' \<mapsto> [2]], trace := [Print []]\<rparr>))
   \<and> convert_pdf_to_markdown example_env (lit ''a.pdf'') (example_world\<lparr>files := [lit ''a.pdf'' \<mapsto> [1]]\<rparr>)
       = (Inr (lit ''\<newline>## Page 1\<newline>\<newline>Hi\<newline>\<newline>''), example_world\<lparr>files := [lit ''a.pdf'' \<mapsto> [1]]\<rparr>)"
proof -
  let ?w1 = "example_world\<lparr>files := [lit ''a.pdf'' \<mapsto> [1]]\<rparr>"
  let ?w2 = "example_world\<lparr>files := [lit ''b.pdf'' \<mapsto> [1], lit ''a.pdf'' \<mapsto> [2]], trace := [Print []]\<rparr>"
  have f1: "files ?w1 (lit ''a.pdf'') = Some [1]"
    by simp
  have f2: "files ?w2 (lit ''b.pdf'') = Some [1]"
    by (simp add: lit_def)
  have rd: "pdf_reader example_env [1] = Inr [lit ''Hi'']"
    by (simp add: example_env_def)
  have md: "markdown_of_pages [lit ''Hi''] = lit ''\<newline>## Page 1\<newline>\<newline>Hi\<newline>\<newline>''"
    by (simp add: markdown_of_pages_def pages_loop.simps str_nat.simps lit_def NL_def SP_def
        str_split_def clean_paragraph_def str_strip_def isspace_def)
  from convert_pure_deterministic [where ?ev1.0 = example_env and ?ev2.0 = example_env, OF f1 f2 refl]
  have same: "fst (convert_pdf_to_markdown example_env (lit ''a.pdf'') ?w1) =
      fst (convert_pdf_to_markdown example_env (lit ''b.pdf'') ?w2)"
    and content: "\<forall>pages. pdf_reader example_env [1] = Inr pages \<longrightarrow>
           convert_pdf_to_markdown example_env (lit ''a.pdf'') ?w1 = (Inr (markdown_of_pages pages), ?w1)"
    by blast+
  from content rd have "convert_pdf_to_markdown example_env (lit ''a.pdf'') ?w1
      = (Inr (markdown_of_pages [lit ''Hi'']), ?w1)"
    by blast
  with same show ?thesis
    by (simp only: md)
qed

section \<open>The loops of main\<close>

lemma makedirs_frame:
  "makedirs n ok w = (res, w') \<Longrightarrow>
     files w' = files w \<and> dirs w \<subseteq> dirs w' \<and> trace w' = trace w @ [Makedirs n ok]
     \<and> (res = None \<longrightarrow> n \<in> dirs w')"
  by (auto simp: makedirs_def Let_def emit_def split: if_splits)

lemma makedirs_existing:
  "n \<in> dirs w \<Longrightarrow> makedirs n True w = (None, emit (Makedirs n True) w)"
  by (simp add: makedirs_def Let_def emit_def)

lemma query_body_run:
  "makedirs (output_pdf_dir_of q) True (info (lit ''Searching for '' @ q) w) = (None, w2) \<Longrightarrow>
   makedirs (output_md_dir_of q) True w2 = (None, w3) \<Longrightarrow>
   query_body a ev cl (Some c) q w =
     results_loop a ev (output_pdf_dir_of q) (output_md_dir_of q) 0
       (client_results ev cl \<lparr>search_query = q, search_max_results = max_results a, search_sort_by = c\<rparr>) w3"
  by (simp add: query_body_def Let_def)

lemma query_body_pdf_dir_failed:
  "makedirs (output_pdf_dir_of q) True (info (lit ''Searching for '' @ q) w) = (Some e, w2) \<Longrightarrow>
   query_body a ev cl (Some c) q w = (Some e, w2)"
  by (simp add: query_body_def Let_def)

lemma query_body_md_dir_failed:
  "makedirs (output_pdf_dir_of q) True (info (lit ''Searching for '' @ q) w) = (None, w2) \<Longrightarrow>
   makedirs (output_md_dir_of q) True w2 = (Some e, w3) \<Longrightarrow>
   query_body a ev cl (Some c) q w = (Some e, w3)"
  by (simp add: query_body_def Let_def)

lemma result_body_Some:
  assumes "result_body a ev pd md i r w = (Some e, w')"
  shows "\<not> isinstance_Exception e"
proof -
  let ?w1 = "info (lit ''Downloading '' @ str_nat (i + 1) @ lit ''/'' @ str_int (max_results a) @ lit '': '' @ title r) w"
  obtain res2 w2 where dl: "download_pdf r pd (title r @ lit ''.pdf'') ?w1 = (res2, w2)"
    by force
  show ?thesis
  proof (cases res2)
    case (Some e2)
    with dl assms show ?thesis
      by (auto simp: result_body_download_failed split: if_splits)
  next
    case None
    with dl assms show ?thesis
      by (auto simp: result_body_downloaded split: prod.splits option.splits if_splits)
  qed
qed

lemma results_loop_stream_error:
  "stream_error seq = Some e \<Longrightarrow>
     \<exists>e' w'. results_loop a ev pd md i seq w = (Some e', w') \<and> (e' = e \<or> \<not> isinstance_Exception e')"
proof (induction seq arbitrary: i w)
  case Stop
  then show ?case by simp
next
  case (Raise x)
  then show ?case by simp
next
  case (Yield r rest)
  obtain res1 w1 where rb: "result_body a ev pd md i r w = (res1, w1)"
    by force
  show ?case
  proof (cases res1)
    case (Some e1)
    with rb have "\<not> isinstance_Exception e1"
      by (auto dest: result_body_Some)
    with rb Some show ?thesis by simp
  next
    case None
    from Yield.prems have "stream_error rest = Some e" by simp
    from Yield.IH [OF this, of "i + 1" w1] rb None show ?thesis by simp
  qed
qed

text \<open>
  C5. When the result stream of a query ends with an exception \<open>e\<close> and the two
  directories could be made, the loop over the results ends with an exception, which is
  \<open>e\<close> unless a record before raised something that is no \<^verbatim>\<open>Exception\<close>; this is
  the result of the query and of the whole loop over the queries, whatever queries
  remain. Where the stream raises, the world is left as it is: no handler runs.
\<close>

theorem stream_exception_ends_run:
  assumes "stream_error (client_results ev cl
             \<lparr>search_query = each_query, search_max_results = max_results a, search_sort_by = c\<rparr>) = Some e"
    and "makedirs (output_pdf_dir_of each_query) True (info (lit ''Searching for '' @ each_query) w) = (None, w2)"
    and "makedirs (output_md_dir_of each_query) True w2 = (None, w3)"
  shows "\<exists>e' w'.
      results_loop a ev (output_pdf_dir_of each_query) (output_md_dir_of each_query) 0
         (client_results ev cl
            \<lparr>search_query = each_query, search_max_results = max_results a, search_sort_by = c\<rparr>) w3
        = (Some e', w')
      \<and> (e' = e \<or> \<not> isinstance_Exception e')
      \<and> query_body a ev cl (Some c) each_query w = (Some e', w')
      \<and> queries_loop a ev cl (Some c) (each_query # rest) w = (Some e', w')
      \<and> results_loop a ev output_pdf_dir output_md_dir index (Raise e) w0 = (Some e, w0)"
proof -
  let ?seq = "client_results ev cl
            \<lparr>search_query = each_query, search_max_results = max_results a, search_sort_by = c\<rparr>"
  from results_loop_stream_error [OF assms(1)]
  obtain e' w' where loop: "results_loop a ev (output_pdf_dir_of each_query)
      (output_md_dir_of each_query) 0 ?seq w3 = (Some e', w')"
    and e': "e' = e \<or> \<not> isinstance_Exception e'"
    by blast
  have qb: "query_body a ev cl (Some c) each_query w = (Some e', w')"
    using query_body_run [OF assms(2,3)] loop by simp
  then have "queries_loop a ev cl (Some c) (each_query # rest) w = (Some e', w')"
    by simp
  with loop e' qb show ?thesis by simp
qed

theorem stream_exception_ends_run_witness:
  "main example_args example_env example_world =
     (Some (OtherException (lit ''503'')),
      example_world
        \<lparr>files := [lit ''./pdfs/q/A.pdf'' \<mapsto> [1]],
         trace :=
           [Log Info (lit ''Searching for q''),
            Makedirs (lit ''./pdfs/q/'') True,
            Makedirs (lit ''./mds/q/'') True,
            Log Info (lit ''Downloading 1/10: A''),
            DownloadPdf (lit ''./pdfs/q/'') (lit ''A.pdf''),
            Log Success (lit ''Downloaded A'')]\<rparr>)"
proof -
  let ?cl = "\<lparr>client_page_size = 100, client_delay_seconds = 10, client_num_retries = 5\<rparr>"
  let ?w2 = "example_world\<lparr>trace := [Log Info (lit ''Searching for q''), Makedirs (lit ''./pdfs/q/'') True]\<rparr>"
  let ?w3 = "example_world\<lparr>trace := [Log Info (lit ''Searching for q''), Makedirs (lit ''./pdfs/q/'') True,
     Makedirs (lit ''./mds/q/'') True]\<rparr>"
  let ?final = "example_world
        \<lparr>files := [lit ''./pdfs/q/A.pdf'' \<mapsto> [1]],
         trace :=
           [Log Info (lit ''Searching for q''),
            Makedirs (lit ''./pdfs/q/'') True,
            Makedirs (lit ''./mds/q/'') True,
            Log Info (lit ''Downloading 1/10: A''),
            DownloadPdf (lit ''./pdfs/q/'') (lit ''A.pdf''),
            Log Success (lit ''Downloaded A'')]\<rparr>"
  have dirs: "output_pdf_dir_of (lit ''q'') = lit ''./pdfs/q/''" "output_md_dir_of (lit ''q'') = lit ''./mds/q/''"
    by (simp_all add: output_pdf_dir_of_def output_md_dir_of_def lit_def SP_def)
  have raises: "stream_error (client_results example_env ?cl
      \<lparr>search_query = lit ''q'', search_max_results = max_results example_args,
         search_sort_by = Relevance\<rparr>) = Some (OtherException (lit ''503''))"
    by (simp add: example_env_def)
  have mk1: "makedirs (output_pdf_dir_of (lit ''q'')) True
      (info (lit ''Searching for '' @ lit ''q'') example_world) = (None, ?w2)"
    unfolding dirs by (simp add: makedirs_def Let_def emit_def log_simps example_world_def lit_def)
  have mk2: "makedirs (output_md_dir_of (lit ''q'')) True ?w2 = (None, ?w3)"
    unfolding dirs by (simp add: makedirs_def Let_def emit_def example_world_def lit_def)
  have loop: "results_loop example_args example_env (lit ''./pdfs/q/'') (lit ''./mds/q/'') 0
      (client_results example_env ?cl
         \<lparr>search_query = lit ''q'', search_max_results = max_results example_args,
            search_sort_by = Relevance\<rparr>) ?w3 = (Some (OtherException (lit ''503'')), ?final)"
    by (simp add: eval_simps example_env_def paper_a_def example_args_def example_world_def)
  from stream_exception_ends_run [OF raises mk1 mk2, where rest = "[lit ''r'']"]
  have "queries_loop example_args example_env ?cl (Some Relevance) (lit ''q'' # [lit ''r'']) example_world
      = (Some (OtherException (lit ''503'')), ?final)"
    unfolding dirs loop by blast
  then show ?thesis
    by (simp add: main_def example_args_def lit_def)
qed







lemma query_body_cases:
  fixes a ev cl c q w
  defines "w1 \<equiv> info (lit ''Searching for '' @ q) w"
  shows "(\<exists>e w2. makedirs (output_pdf_dir_of q) True w1 = (Some e, w2)
            \<and> query_body a ev cl (Some c) q w = (Some e, w2))
       \<or> (\<exists>e w2 w3. makedirs (output_pdf_dir_of q) True w1 = (None, w2)
            \<and> makedirs (output_md_dir_of q) True w2 = (Some e, w3)
            \<and> query_body a ev cl (Some c) q w = (Some e, w3))
       \<or> (\<exists>w2 w3. makedirs (output_pdf_dir_of q) True w1 = (None, w2)
            \<and> makedirs (output_md_dir_of q) True w2 = (None, w3)
            \<and> query_body a ev cl (Some c) q w =
                results_loop a ev (output_pdf_dir_of q) (output_md_dir_of q) 0
                  (client_results ev cl \<lparr>search_query = q, search_max_results = max_results a,
                     search_sort_by = c\<rparr>) w3)"
proof -
  obtain r2 w2 where m1: "makedirs (output_pdf_dir_of q) True w1 = (r2, w2)"
    by force
  obtain r3 w3 where m2: "makedirs (output_md_dir_of q) True w2 = (r3, w3)"
    by force
  show ?thesis
  proof (cases r2)
    case (Some e)
    with m1 show ?thesis
      unfolding w1_def by (auto dest: query_body_pdf_dir_failed)
  next
    case None
    note r2 = this
    show ?thesis
    proof (cases r3)
      case (Some e)
      with m1 m2 r2 show ?thesis
        unfolding w1_def by (auto dest: query_body_md_dir_failed)
    next
      case None
      with m1 m2 r2 show ?thesis
        unfolding w1_def by (auto dest: query_body_run)
    qed
  qed
qed

lemma query_body_frame:
  assumes "query_body a ev cl sb q w = (res, w')"
  shows "extends (requested_in (markdown a) (output_pdf_dir_of q) (output_md_dir_of q)) w w'"
proof (cases sb)
  case None
  with assms show ?thesis by (simp add: query_body_def extends_refl)
next
  case (Some c)
  let ?w1 = "info (lit ''Searching for '' @ q) w"
  let ?pd = "output_pdf_dir_of q"
  let ?md = "output_md_dir_of q"
  let ?ok = "requested_in (markdown a) ?pd ?md"
  from query_body_cases [of q w a ev cl c]
  consider (pdf) e w2 where "makedirs ?pd True ?w1 = (Some e, w2)"
      "query_body a ev cl (Some c) q w = (Some e, w2)"
    | (md) e w2 w3 where "makedirs ?pd True ?w1 = (None, w2)"
      "makedirs ?md True w2 = (Some e, w3)"
      "query_body a ev cl (Some c) q w = (Some e, w3)"
    | (run) w2 w3 where "makedirs ?pd True ?w1 = (None, w2)"
      "makedirs ?md True w2 = (None, w3)"
      "query_body a ev cl (Some c) q w =
                results_loop a ev ?pd ?md 0
                  (client_results ev cl \<lparr>search_query = q, search_max_results = max_results a,
                     search_sort_by = c\<rparr>) w3"
    by blast
  then show ?thesis
  proof cases
    case pdf
    from pdf(2) assms Some have w': "w' = w2" by simp
    from makedirs_frame [OF pdf(1)] show ?thesis
      unfolding w'
      by (intro extendsI [where evs = "[Log Info (lit ''Searching for '' @ q), Makedirs ?pd True]"])
        (simp_all add: log_simps requested_in_simps)
  next
    case md
    from md(3) assms Some have w': "w' = w3" by simp
    from makedirs_frame [OF md(1)] makedirs_frame [OF md(2)] show ?thesis
      unfolding w'
      by (intro extendsI [where evs = "[Log Info (lit ''Searching for '' @ q), Makedirs ?pd True,
            Makedirs ?md True]"])
        (auto simp: log_simps requested_in_simps)
  next
    case run
    from makedirs_frame [OF run(1)] makedirs_frame [OF run(2)]
    have start: "extends ?ok w w3"
      by (intro extendsI [where evs = "[Log Info (lit ''Searching for '' @ q), Makedirs ?pd True,
            Makedirs ?md True]"])
        (auto simp: log_simps requested_in_simps)
    from run(3) assms Some have "results_loop a ev ?pd ?md 0
                  (client_results ev cl \<lparr>search_query = q, search_max_results = max_results a,
                     search_sort_by = c\<rparr>) w3 = (res, w')"
      by simp
    from results_loop_frame [OF this] have "extends ?ok w3 w'" by simp
    with start show ?thesis by (rule extends_trans)
  qed
qed

lemma queries_loop_frame:
  "queries_loop a ev cl sb qs w = (res, w') \<Longrightarrow>
     extends (\<lambda>e. \<exists>q\<in>set qs. requested_in (markdown a) (output_pdf_dir_of q) (output_md_dir_of q) e)
       w w'"
proof (induction qs arbitrary: w)
  case Nil
  then show ?case by (simp add: extends_refl)
next
  case (Cons q qs)
  let ?ok = "\<lambda>e. \<exists>q\<in>set (q # qs). requested_in (markdown a) (output_pdf_dir_of q) (output_md_dir_of q) e"
  obtain res1 w1 where qb: "query_body a ev cl sb q w = (res1, w1)"
    by force
  have first: "extends ?ok w w1"
    by (rule extends_mono [OF query_body_frame [OF qb]]) simp
  show ?case
  proof (cases res1)
    case (Some e)
    with qb Cons.prems have "w' = w1" by simp
    with first show ?thesis by simp
  next
    case None
    with qb Cons.prems have "queries_loop a ev cl sb qs w1 = (res, w')"
      by simp
    from Cons.IH [OF this] have "extends ?ok w1 w'"
      by (rule extends_mono) auto
    with first show ?thesis by (rule extends_trans)
  qed
qed

lemma main_loops:
  "main a ev w = queries_loop a ev (client_of a) (sort_criterion_of (sort_by a)) (query_list a) w"
  by (simp add: main_def client_of_def sort_criterion_of_def Let_def)

lemma main_frame:
  "extends (\<lambda>e. \<exists>q\<in>set (query_list a).
       requested_in (markdown a) (output_pdf_dir_of q) (output_md_dir_of q) e) w (snd (main a ev w))"
  using queries_loop_frame [of a ev "client_of a" "sort_criterion_of (sort_by a)" "query_list a" w]
  by (cases "main a ev w") (simp add: main_loops)





lemmas run_simps = query_body_def makedirs_def leading_dirs_def output_pdf_dir_of_def
    output_md_dir_of_def eval_simps SP_def UNDERSCORE_def



lemma results_loop_dirs:
  "dirs (snd (results_loop a ev pd md i seq w)) = dirs w"
  using results_loop_frame [of a ev pd md i seq w] by (cases "results_loop a ev pd md i seq w") simp

lemma results_loop_trace:
  "\<exists>evs. trace (snd (results_loop a ev pd md i seq w)) = trace w @ evs"
  using results_loop_frame [of a ev pd md i seq w]
  by (cases "results_loop a ev pd md i seq w") (auto simp: extends_def)

text \<open>
  C8. Either the loop over the results of a query starts in a world that has both
  directories of the query and the files of before, after the line announcing the search
  and the two calls of \<^verbatim>\<open>makedirs\<close> and nothing else, and both directories are still
  there when the query is done; or one of the two calls raised, and the query ends
  without any download. Creating a directory that exists raises no error and changes
  nothing, so creating it a second time succeeds.
\<close>

theorem dirs_created_before_downloads:
  "((\<exists>w3 evs.
        query_body a ev cl (Some c) each_query w =
          results_loop a ev (output_pdf_dir_of each_query) (output_md_dir_of each_query) 0
            (client_results ev cl \<lparr>search_query = each_query, search_max_results = max_results a,
               search_sort_by = c\<rparr>) w3
        \<and> output_pdf_dir_of each_query \<in> dirs w3 \<and> output_md_dir_of each_query \<in> dirs w3
        \<and> files w3 = files w
        \<and> trace w3 = trace w @ [Log Info (lit ''Searching for '' @ each_query),
             Makedirs (output_pdf_dir_of each_query) True, Makedirs (output_md_dir_of each_query) True]
        \<and> dirs (snd (query_body a ev cl (Some c) each_query w)) = dirs w3
        \<and> trace (snd (query_body a ev cl (Some c) each_query w)) = trace w3 @ evs)
    \<or> (\<exists>e w4.
        query_body a ev cl (Some c) each_query w = (Some e, w4) \<and> files w4 = files w
        \<and> (trace w4 = trace w @ [Log Info (lit ''Searching for '' @ each_query),
               Makedirs (output_pdf_dir_of each_query) True]
           \<or> trace w4 = trace w @ [Log Info (lit ''Searching for '' @ each_query),
               Makedirs (output_pdf_dir_of each_query) True,
               Makedirs (output_md_dir_of each_query) True])))
   \<and> (d \<in> dirs w \<longrightarrow> makedirs d True w = (None, emit (Makedirs d True) w))
   \<and> (makedirs d True w = (None, w5) \<longrightarrow> makedirs d True w5 = (None, emit (Makedirs d True) w5))"
proof (intro conjI)
  let ?w1 = "info (lit ''Searching for '' @ each_query) w"
  let ?pd = "output_pdf_dir_of each_query"
  let ?md = "output_md_dir_of each_query"
  let ?seq = "client_results ev cl \<lparr>search_query = each_query, search_max_results = max_results a,
               search_sort_by = c\<rparr>"
  let ?A = "\<exists>w3 evs.
        query_body a ev cl (Some c) each_query w = results_loop a ev ?pd ?md 0 ?seq w3
        \<and> ?pd \<in> dirs w3 \<and> ?md \<in> dirs w3
        \<and> files w3 = files w
        \<and> trace w3 = trace w @ [Log Info (lit ''Searching for '' @ each_query),
             Makedirs ?pd True, Makedirs ?md True]
        \<and> dirs (snd (query_body a ev cl (Some c) each_query w)) = dirs w3
        \<and> trace (snd (query_body a ev cl (Some c) each_query w)) = trace w3 @ evs"
  let ?B = "\<exists>e w4.
        query_body a ev cl (Some c) each_query w = (Some e, w4) \<and> files w4 = files w
        \<and> (trace w4 = trace w @ [Log Info (lit ''Searching for '' @ each_query), Makedirs ?pd True]
           \<or> trace w4 = trace w @ [Log Info (lit ''Searching for '' @ each_query),
               Makedirs ?pd True, Makedirs ?md True])"
  from query_body_cases [of each_query w a ev cl c]
  consider (pdf) e w2 where "makedirs ?pd True ?w1 = (Some e, w2)"
      "query_body a ev cl (Some c) each_query w = (Some e, w2)"
    | (md) e w2 w3 where "makedirs ?pd True ?w1 = (None, w2)"
      "makedirs ?md True w2 = (Some e, w3)"
      "query_body a ev cl (Some c) each_query w = (Some e, w3)"
    | (run) w2 w3 where "makedirs ?pd True ?w1 = (None, w2)"
      "makedirs ?md True w2 = (None, w3)"
      "query_body a ev cl (Some c) each_query w = results_loop a ev ?pd ?md 0 ?seq w3"
    by blast
  then show "?A \<or> ?B"
  proof cases
    case pdf
    from makedirs_frame [OF pdf(1)] have "files w2 = files w"
      "trace w2 = trace w @ [Log Info (lit ''Searching for '' @ each_query), Makedirs ?pd True]"
      by (simp_all add: log_simps)
    with pdf(2) have ?B by blast
    then show ?thesis ..
  next
    case md
    from makedirs_frame [OF md(1)] makedirs_frame [OF md(2)] have "files w3 = files w"
      "trace w3 = trace w @ [Log Info (lit ''Searching for '' @ each_query), Makedirs ?pd True,
         Makedirs ?md True]"
      by (simp_all add: log_simps)
    with md(3) have ?B by blast
    then show ?thesis ..
  next
    case run
    from makedirs_frame [OF run(1)] makedirs_frame [OF run(2)]
    have w3: "?pd \<in> dirs w3" "?md \<in> dirs w3" "files w3 = files w"
      "trace w3 = trace w @ [Log Info (lit ''Searching for '' @ each_query), Makedirs ?pd True,
         Makedirs ?md True]"
      by (auto simp: log_simps)
    from results_loop_trace [of a ev ?pd ?md 0 ?seq w3]
    obtain evs where "trace (snd (query_body a ev cl (Some c) each_query w)) = trace w3 @ evs"
      unfolding run(3) by blast
    moreover have "dirs (snd (query_body a ev cl (Some c) each_query w)) = dirs w3"
      unfolding run(3) by (rule results_loop_dirs)
    ultimately have ?A using run(3) w3 by blast
    then show ?thesis ..
  qed
next
  show "d \<in> dirs w \<longrightarrow> makedirs d True w = (None, emit (Makedirs d True) w)"
    by (simp add: makedirs_existing)
next
  show "makedirs d True w = (None, w5) \<longrightarrow> makedirs d True w5 = (None, emit (Makedirs d True) w5)"
  proof
    assume "makedirs d True w = (None, w5)"
    from makedirs_frame [OF this] have "d \<in> dirs w5" by simp
    then show "makedirs d True w5 = (None, emit (Makedirs d True) w5)"
      by (rule makedirs_existing)
  qed
qed

theorem dirs_created_before_downloads_witness:
  "fst (query_body example_args example_env example_client (Some Relevance) (lit ''r'') empty_world) = None
   \<and> trace (snd (query_body example_args example_env example_client (Some Relevance) (lit ''r'') empty_world)) =
       [Log Info (lit ''Searching for r''),
        Makedirs (lit ''./pdfs/r/'') True,
        Makedirs (lit ''./mds/r/'') True,
        Log Info (lit ''Downloading 1/10: A''),
        DownloadPdf (lit ''./pdfs/r/'') (lit ''A.pdf''),
        Log Success (lit ''Downloaded A''),
        Log Info (lit ''Downloading 2/10: B''),
        DownloadPdf (lit ''./pdfs/r/'') (lit ''B.pdf''),
        Log Error (lit ''Error downloading B: 404''),
        Log Info (lit ''Downloading 3/10: C''),
        DownloadPdf (lit ''./pdfs/r/'') (lit ''C.pdf''),
        Log Success (lit ''Downloaded C'')]
   \<and> output_pdf_dir_of (lit ''r'') \<in> dirs (snd (query_body example_args example_env example_client
         (Some Relevance) (lit ''r'') empty_world))
   \<and> output_md_dir_of (lit ''r'') \<in> dirs (snd (query_body example_args example_env example_client
         (Some Relevance) (lit ''r'') empty_world))
   \<and> makedirs (lit ''./pdfs/q/'') True example_world =
        (None, emit (Makedirs (lit ''./pdfs/q/'') True) example_world)"
proof -
  let ?qb = "query_body example_args example_env example_client (Some Relevance) (lit ''r'') empty_world"
  have ok: "fst ?qb = None"
    by (simp add: run_simps example_args_def example_env_def example_client_def empty_world_def
        paper_a_def paper_b_def paper_c_def)
  have tr: "trace (snd ?qb) =
       [Log Info (lit ''Searching for r''),
        Makedirs (lit ''./pdfs/r/'') True,
        Makedirs (lit ''./mds/r/'') True,
        Log Info (lit ''Downloading 1/10: A''),
        DownloadPdf (lit ''./pdfs/r/'') (lit ''A.pdf''),
        Log Success (lit ''Downloaded A''),
        Log Info (lit ''Downloading 2/10: B''),
        DownloadPdf (lit ''./pdfs/r/'') (lit ''B.pdf''),
        Log Error (lit ''Error downloading B: 404''),
        Log Info (lit ''Downloading 3/10: C''),
        DownloadPdf (lit ''./pdfs/r/'') (lit ''C.pdf''),
        Log Success (lit ''Downloaded C'')]"
    by (simp add: run_simps example_args_def example_env_def example_client_def empty_world_def
        paper_a_def paper_b_def paper_c_def)
  have there: "lit ''./pdfs/q/'' \<in> dirs example_world"
    by (simp add: example_world_def)
  note inst = dirs_created_before_downloads [where a = example_args and ev = example_env
      and cl = example_client and c = Relevance and each_query = "lit ''r''" and w = empty_world]
  from inst [where d = "[]" and ?w5.0 = empty_world] ok
  have "output_pdf_dir_of (lit ''r'') \<in> dirs (snd ?qb) \<and> output_md_dir_of (lit ''r'') \<in> dirs (snd ?qb)"
    by auto
  moreover from dirs_created_before_downloads [where w = example_world and d = "lit ''./pdfs/q/''"] there
  have "makedirs (lit ''./pdfs/q/'') True example_world =
        (None, emit (Makedirs (lit ''./pdfs/q/'') True) example_world)"
    by blast
  ultimately show ?thesis using ok tr by simp
qed

lemma queries_loop_append:
  "queries_loop a ev cl sb (xs @ ys) w =
     (case queries_loop a ev cl sb xs w of
        (Some e, w1) \<Rightarrow> (Some e, w1)
      | (None, w1) \<Rightarrow> queries_loop a ev cl sb ys w1)"
  by (induction xs arbitrary: w) (auto split: prod.splits option.splits)

lemma extends_grows:
  "extends ok w w' \<Longrightarrow> dirs w \<subseteq> dirs w' \<and> (\<exists>evs. trace w' = trace w @ evs)"
  unfolding extends_def by blast

text \<open>
  C10, as amended. Take a run with a bound sort criterion and a query of its list that
  the run reaches, the queries before it having ended without exception, and for which
  both calls of \<^verbatim>\<open>makedirs\<close> return. Then the markdown directory of the query exists
  when the second call returns and at the end of the run, and the call that made it is
  in the trace of the run, whether the conversion is switched on or not. When the
  conversion is switched off, the run opens no file for writing, and every file it
  creates or changes is the target of one of its downloads.
\<close>

theorem md_dir_created_without_markdown:
  assumes "sort_criterion_of (sort_by a) = Some c"
    and "query_list a = earlier @ each_query # later"
    and "queries_loop a ev (client_of a) (Some c) earlier w = (None, w1)"
    and "makedirs (output_pdf_dir_of each_query) True
           (info (lit ''Searching for '' @ each_query) w1) = (None, w2)"
    and "makedirs (output_md_dir_of each_query) True w2 = (None, w3)"
  shows "output_md_dir_of each_query \<in> dirs w3
     \<and> output_md_dir_of each_query \<in> dirs (snd (main a ev w))
     \<and> Makedirs (output_md_dir_of each_query) True \<in> set (new_events w (snd (main a ev w)))
     \<and> (\<not> markdown a \<longrightarrow>
          (\<forall>p. OpenWrite p \<notin> set (new_events w (snd (main a ev w))))
          \<and> (\<forall>p. files (snd (main a ev w)) p \<noteq> files w p \<longrightarrow>
                (\<exists>d f. DownloadPdf d f \<in> set (new_events w (snd (main a ev w)))
                       \<and> p = os_path_join d f)))"
proof -
  let ?pd = "output_pdf_dir_of each_query"
  let ?md = "output_md_dir_of each_query"
  let ?cl = "client_of a"
  let ?seq = "client_results ev ?cl \<lparr>search_query = each_query, search_max_results = max_results a,
               search_sort_by = c\<rparr>"
  let ?final = "snd (main a ev w)"
  have run: "main a ev w = queries_loop a ev ?cl (Some c) (each_query # later) w1"
    using assms(1,2,3) by (simp add: main_loops queries_loop_append)
  have qb: "query_body a ev ?cl (Some c) each_query w1 = results_loop a ev ?pd ?md 0 ?seq w3"
    by (rule query_body_run [OF assms(4,5)])
  obtain r4 w4 where loop: "results_loop a ev ?pd ?md 0 ?seq w3 = (r4, w4)"
    by force
  from results_loop_frame [OF loop] have d4: "dirs w4 = dirs w3"
    and t4: "\<exists>evs. trace w4 = trace w3 @ evs"
    by (auto dest: extends_grows)
  have after: "dirs w4 \<subseteq> dirs ?final \<and> (\<exists>evs. trace ?final = trace w4 @ evs)"
  proof (cases r4)
    case (Some e)
    with run qb loop have "?final = w4" by simp
    then show ?thesis by simp
  next
    case None
    obtain r5 w5 where rest: "queries_loop a ev ?cl (Some c) later w4 = (r5, w5)"
      by force
    with None run qb loop have "?final = w5" by simp
    with extends_grows [OF queries_loop_frame [OF rest]] show ?thesis by simp
  qed
  from makedirs_frame [OF assms(5)] have in3: "?md \<in> dirs w3"
    and t3: "trace w3 = trace w2 @ [Makedirs ?md True]"
    by simp_all
  from makedirs_frame [OF assms(4)]
  have t2: "trace w2 = trace w1 @ [Log Info (lit ''Searching for '' @ each_query), Makedirs ?pd True]"
    by (simp add: log_simps)
  from extends_grows [OF queries_loop_frame [OF assms(3)]]
  obtain evs1 where t1: "trace w1 = trace w @ evs1" by blast
  from t4 obtain evs4 where t4': "trace w4 = trace w3 @ evs4" by blast
  from after obtain evs5 where t5: "trace ?final = trace w4 @ evs5" by blast
  have "trace ?final = trace w @ (evs1 @ [Log Info (lit ''Searching for '' @ each_query),
      Makedirs ?pd True, Makedirs ?md True] @ evs4 @ evs5)"
    by (simp add: t1 t2 t3 t4' t5)
  then have "new_events w ?final = evs1 @ [Log Info (lit ''Searching for '' @ each_query),
      Makedirs ?pd True, Makedirs ?md True] @ evs4 @ evs5"
    by (simp add: new_events_def)
  then have made: "Makedirs ?md True \<in> set (new_events w ?final)"
    by simp
  have there: "?md \<in> dirs ?final"
    using in3 d4 after by blast
  note ext = extends_new_events [OF main_frame [of a w ev]]
  have off: "\<not> markdown a \<longrightarrow>
          (\<forall>p. OpenWrite p \<notin> set (new_events w ?final))
          \<and> (\<forall>p. files ?final p \<noteq> files w p \<longrightarrow>
                (\<exists>d f. DownloadPdf d f \<in> set (new_events w ?final) \<and> p = os_path_join d f))"
  proof
    assume noconv: "\<not> markdown a"
    have none: "OpenWrite p \<notin> set (new_events w ?final)" for p
    proof
      assume "OpenWrite p \<in> set (new_events w ?final)"
      with ext(2) obtain q where "requested_in (markdown a) (output_pdf_dir_of q) (output_md_dir_of q) (OpenWrite p)"
        by blast
      with noconv show False by (simp add: requested_in_def)
    qed
    have "\<exists>d f. DownloadPdf d f \<in> set (new_events w ?final) \<and> p = os_path_join d f"
      if "files ?final p \<noteq> files w p" for p
    proof -
      from ext(3) that have "written_by (new_events w ?final) p" by blast
      then obtain e where e: "e \<in> set (new_events w ?final)"
        and c: "(case e of DownloadPdf d f \<Rightarrow> p = os_path_join d f | OpenWrite q \<Rightarrow> p = q | _ \<Rightarrow> False)"
        by (auto simp: written_by_def list_ex_iff)
      show ?thesis
      proof (cases e)
        case (DownloadPdf d f)
        with e c show ?thesis by auto
      next
        case (OpenWrite q)
        with e none show ?thesis by blast
      qed (use c in simp_all)
    qed
    with none show "(\<forall>p. OpenWrite p \<notin> set (new_events w ?final))
          \<and> (\<forall>p. files ?final p \<noteq> files w p \<longrightarrow>
                (\<exists>d f. DownloadPdf d f \<in> set (new_events w ?final) \<and> p = os_path_join d f))"
      by blast
  qed
  from in3 there made off show ?thesis by blast
qed

theorem md_dir_created_without_markdown_witness:
  "markdown example_args = False
   \<and> output_md_dir_of (lit ''q'') = lit ''./mds/q/''
   \<and> lit ''./mds/q/'' \<in> dirs (snd (main example_args example_env empty_world))
   \<and> Makedirs (lit ''./mds/q/'') True
        \<in> set (new_events empty_world (snd (main example_args example_env empty_world)))
   \<and> OpenWrite (lit ''./mds/q/A.md'')
        \<notin> set (new_events empty_world (snd (main example_args example_env empty_world)))"
proof -
  have off: "\<not> markdown example_args"
    by (simp add: example_args_def)
  have md: "output_md_dir_of (lit ''q'') = lit ''./mds/q/''"
    by (simp add: output_md_dir_of_def lit_def SP_def)
  have crit: "sort_criterion_of (sort_by example_args) = Some Relevance"
    by (simp add: sort_criterion_of_def example_args_def)
  have qs: "query_list example_args = [] @ lit ''q'' # [lit ''r'']"
    by (simp add: example_args_def)
  have reach: "queries_loop example_args example_env (client_of example_args) (Some Relevance) []
      empty_world = (None, empty_world)"
    by simp
  have "fst (makedirs (output_pdf_dir_of (lit ''q'')) True
      (info (lit ''Searching for '' @ lit ''q'') empty_world)) = None"
    by (simp add: run_simps empty_world_def)
  then obtain w2 where mk1: "makedirs (output_pdf_dir_of (lit ''q'')) True
      (info (lit ''Searching for '' @ lit ''q'') empty_world) = (None, w2)"
    by (metis prod.collapse)
  then have files2: "files w2 = Map.empty"
    by (auto dest!: makedirs_frame simp: log_simps empty_world_def)
  from mk1 have "lit ''./mds/q/'' \<notin> dirs w2"
    by (auto simp: run_simps empty_world_def split: if_splits)
  with files2 have "fst (makedirs (lit ''./mds/q/'') True w2) = None"
    by (simp add: makedirs_def Let_def emit_def name_too_long_def utf8_length_def
        basename_def rstrip_slash_def lit_def list_ex_iff)
  then have "fst (makedirs (output_md_dir_of (lit ''q'')) True w2) = None"
    by (simp only: md)
  then obtain w3 where mk2: "makedirs (output_md_dir_of (lit ''q'')) True w2 = (None, w3)"
    by (metis prod.collapse)
  note inst = md_dir_created_without_markdown [OF crit qs reach mk1 mk2]
  from inst off show ?thesis
    by (simp add: md)
qed

text \<open>
  C10 as stated fails for the second query of a run whose first query has a result
  stream that raises: the run ends there, the conversion being switched off, and the
  markdown directory of the second query is never made.
\<close>

theorem md_dir_unreached_query_counterexample:
  "markdown example_args = False
   \<and> lit ''r'' \<in> set (query_list example_args)
   \<and> output_md_dir_of (lit ''r'') = lit ''./mds/r/''
   \<and> lit ''./mds/r/'' \<notin> dirs (snd (main example_args example_env example_world))
   \<and> Makedirs (lit ''./mds/r/'') True \<notin> set (trace (snd (main example_args example_env example_world)))"
  by (simp add: main_def run_simps example_args_def example_env_def example_world_def paper_a_def)

end
